theory Spec2Isabelle
  imports Complex_Main "HOL-Library.Sublist"
begin

section \<open>JavaScript values used by the monitor\<close>

text \<open>
  The monitor is TypeScript running on Node. A JavaScript \<open>number\<close> is modelled by
  \<open>number\<close>: not-a-number, the two infinities, or a finite value, which is an exact
  real here (rounding to a double is not modelled). Comparison with \<open>NaN\<close> is false,
  as in the language.
\<close>

datatype number = NaN | NegInf | Fin real | PosInf

fun js_le :: "number \<Rightarrow> number \<Rightarrow> bool" where
  "js_le NaN _ = False"
| "js_le _ NaN = False"
| "js_le NegInf _ = True"
| "js_le (Fin x) NegInf = False"
| "js_le (Fin x) (Fin y) = (x \<le> y)"
| "js_le (Fin x) PosInf = True"
| "js_le PosInf PosInf = True"
| "js_le PosInf _ = False"

definition js_ge :: "number \<Rightarrow> number \<Rightarrow> bool" where
  "js_ge a b = js_le b a"

text \<open>
  White space of \<open>String.prototype.trim\<close> and of the numeric grammar, restricted to
  the ASCII range: tab, line feed, vertical tab, form feed, carriage return, space.
\<close>

definition is_space :: "char \<Rightarrow> bool" where
  "is_space c = (c \<in> set [CHR 0x09, CHR 0x0A, CHR 0x0B, CHR 0x0C, CHR 0x0D, CHR 0x20])"

definition trim :: "string \<Rightarrow> string" where
  "trim s = rev (dropWhile is_space (rev (dropWhile is_space s)))"

text \<open>
  \<open>s.split(c)\<close> for a one-character separator: the pieces between the occurrences of
  \<open>c\<close>, so that a string with \<open>n\<close> separators has \<open>n + 1\<close> pieces and the empty string
  has the one piece \<open>''''\<close>.
\<close>

fun split :: "char \<Rightarrow> string \<Rightarrow> string list" where
  "split c [] = [[]]"
| "split c (x # xs) =
     (if x = c then [] # split c xs
      else (case split c xs of [] \<Rightarrow> [[x]] | t # ts \<Rightarrow> (x # t) # ts))"

subsection \<open>\<open>Number(string)\<close>\<close>

text \<open>
  The conversion \<open>Number(s)\<close> of the language (StringToNumber): white space is
  trimmed; the empty string is \<open>0\<close>; \<open>Infinity\<close> with an optional sign; a decimal
  literal with an optional sign, fraction and exponent; a binary, octal or hexadecimal
  integer literal; everything else is \<open>NaN\<close>.
\<close>

definition hex_val :: "char \<Rightarrow> nat option" where
  "hex_val = map_of
     [(CHR ''0'', 0), (CHR ''1'', 1), (CHR ''2'', 2), (CHR ''3'', 3), (CHR ''4'', 4),
      (CHR ''5'', 5), (CHR ''6'', 6), (CHR ''7'', 7), (CHR ''8'', 8), (CHR ''9'', 9),
      (CHR ''a'', 10), (CHR ''b'', 11), (CHR ''c'', 12), (CHR ''d'', 13), (CHR ''e'', 14),
      (CHR ''f'', 15), (CHR ''A'', 10), (CHR ''B'', 11), (CHR ''C'', 12), (CHR ''D'', 13),
      (CHR ''E'', 14), (CHR ''F'', 15)]"

definition digit_in :: "nat \<Rightarrow> char \<Rightarrow> bool" where
  "digit_in b c = (case hex_val c of None \<Rightarrow> False | Some d \<Rightarrow> d < b)"

definition digits_value :: "nat \<Rightarrow> string \<Rightarrow> nat" where
  "digits_value b s = foldl (\<lambda>acc c. acc * b + (case hex_val c of None \<Rightarrow> 0 | Some d \<Rightarrow> d)) 0 s"

definition radix_literal :: "nat \<Rightarrow> string \<Rightarrow> number" where
  "radix_literal b s =
     (if s \<noteq> [] \<and> list_all (digit_in b) s then Fin (real (digits_value b s)) else NaN)"

definition is_exp_mark :: "char \<Rightarrow> bool" where
  "is_exp_mark c = (c = CHR ''e'' \<or> c = CHR ''E'')"

definition exponent_part :: "string \<Rightarrow> int option" where
  "exponent_part s =
     (case s of
        [] \<Rightarrow> None
      | c # r \<Rightarrow>
          (let ds = (if c = CHR ''+'' \<or> c = CHR ''-'' then r else s)
           in if ds \<noteq> [] \<and> list_all (digit_in 10) ds
              then Some (if c = CHR ''-'' then - int (digits_value 10 ds)
                         else int (digits_value 10 ds))
              else None))"

definition scale10 :: "real \<Rightarrow> int \<Rightarrow> real" where
  "scale10 x e = (if 0 \<le> e then x * 10 ^ nat e else x / 10 ^ nat (- e))"

definition unsigned_decimal :: "string \<Rightarrow> real option" where
  "unsigned_decimal s =
     (let m = takeWhile (\<lambda>c. \<not> is_exp_mark c) s;
          er = dropWhile (\<lambda>c. \<not> is_exp_mark c) s;
          ip = takeWhile (\<lambda>c. c \<noteq> CHR ''.'') m;
          fr = dropWhile (\<lambda>c. c \<noteq> CHR ''.'') m;
          fp = (case fr of [] \<Rightarrow> [] | _ # f \<Rightarrow> f);
          mantissa_ok = (list_all (digit_in 10) ip \<and> list_all (digit_in 10) fp \<and>
                         (ip \<noteq> [] \<or> fp \<noteq> []));
          mantissa = real (digits_value 10 ip) + real (digits_value 10 fp) / 10 ^ length fp
      in if \<not> mantissa_ok then None
         else (case er of
                 [] \<Rightarrow> Some mantissa
               | _ # ex \<Rightarrow> (case exponent_part ex of
                              None \<Rightarrow> None
                            | Some e \<Rightarrow> Some (scale10 mantissa e))))"

definition signed_decimal :: "string \<Rightarrow> number" where
  "signed_decimal s =
     (case s of
        [] \<Rightarrow> NaN
      | c # r \<Rightarrow>
          (let neg = (c = CHR ''-'');
               body = (if c = CHR ''+'' \<or> c = CHR ''-'' then r else s)
           in if body = ''Infinity'' then (if neg then NegInf else PosInf)
              else (case unsigned_decimal body of
                      None \<Rightarrow> NaN
                    | Some x \<Rightarrow> Fin (if neg then - x else x))))"

definition Number :: "string option \<Rightarrow> number" where
  "Number v =
     (case v of
        None \<Rightarrow> NaN
      | Some s \<Rightarrow>
          (let t = trim s
           in if t = [] then Fin 0
              else if take 2 t = ''0x'' \<or> take 2 t = ''0X'' then radix_literal 16 (drop 2 t)
              else if take 2 t = ''0o'' \<or> take 2 t = ''0O'' then radix_literal 8 (drop 2 t)
              else if take 2 t = ''0b'' \<or> take 2 t = ''0B'' then radix_literal 2 (drop 2 t)
              else signed_decimal t))"

subsection \<open>Subtraction and division of numbers\<close>

text \<open>
  The balances of a transaction are lamports: JavaScript numbers with integer values,
  modelled by the integer each one holds. The language computes \<open>x - y\<close> and \<open>x / y\<close> in
  double precision: the exact result rounded to the nearest number with a mantissa of 53
  bits, to the even mantissa when two are equally near. \<open>bitLength n\<close> is the number of
  binary digits of \<open>n\<close>, and \<open>roundHalfEven n d\<close> the integer nearest to \<open>n / d\<close>.
  \<open>jsSub x y\<close> is \<open>x - y\<close> on such integers, itself an integer; \<open>jsDiv x d\<close> is \<open>x / d\<close> for an
  integer \<open>x\<close> and a positive integer \<open>d\<close>. The results are within the range of normal
  doubles for every balance of the ledger.
\<close>

fun bitLength :: "nat \<Rightarrow> nat" where
  "bitLength n = (if n = 0 then 0 else Suc (bitLength (n div 2)))"

declare bitLength.simps [simp del]

definition roundHalfEven :: "nat \<Rightarrow> nat \<Rightarrow> nat" where
  "roundHalfEven n d =
     (let q = n div d; r = n mod d
      in if 2 * r > d \<or> (2 * r = d \<and> odd q) then q + 1 else q)"

definition jsSub :: "int \<Rightarrow> int \<Rightarrow> int" where
  "jsSub x y =
     (let a = nat \<bar>x - y\<bar>; b = bitLength a
      in if b \<le> 53 then x - y
         else sgn (x - y) * int (roundHalfEven a (2 ^ (b - 53)) * 2 ^ (b - 53)))"

definition jsDiv :: "int \<Rightarrow> nat \<Rightarrow> real" where
  "jsDiv x d =
     (let n = nat \<bar>x\<bar>;
          k = int (bitLength n) - int (bitLength d);
          s = (if n * 2 ^ nat (52 - k) \<ge> d * 2 ^ 52 * 2 ^ nat (k - 52) then 52 - k
               else 53 - k);
          m = roundHalfEven (n * 2 ^ nat s) (d * 2 ^ nat (- s))
      in if n = 0 then 0
         else real_of_int (sgn x) *
                (if 0 \<le> s then real m / 2 ^ nat s else real m * 2 ^ nat (- s)))"

section \<open>RangeSet: \<open>services/ranges.ts\<close>\<close>

record Range =
  rmin :: number
  rmax :: number

text \<open>
  The array destructuring \<open>const [a, b] = token.split('-')\<close>: the first two pieces of
  the split, \<open>undefined\<close> (here \<open>None\<close>) where there is no such piece.
\<close>

definition piece :: "string list \<Rightarrow> nat \<Rightarrow> string option" where
  "piece ps i = (if i < length ps then Some (ps ! i) else None)"

definition tokenRange :: "string \<Rightarrow> Range" where
  "tokenRange token =
     (let ps = split (CHR ''-'') token
      in \<lparr>rmin = Number (piece ps 0), rmax = Number (piece ps 1)\<rparr>)"

definition parseRanges :: "string option \<Rightarrow> Range list" where
  "parseRanges rangeStr =
     (case rangeStr of
        None \<Rightarrow> []
      | Some s \<Rightarrow>
          if s = [] then []
          else map tokenRange (filter (\<lambda>t. t \<noteq> []) (map trim (split (CHR '','') s))))"

fun amountMatchesRanges :: "number \<Rightarrow> Range list \<Rightarrow> bool" where
  "amountMatchesRanges amount [] = False"
| "amountMatchesRanges amount (r # rs) =
     (if js_ge amount (rmin r) \<and> js_le amount (rmax r) then True
      else amountMatchesRanges amount rs)"

section \<open>BalanceDiffExtractor: \<open>services/blockParser.ts\<close> and \<open>services/txParser.ts\<close>\<close>

text \<open>
  An entry of a transaction's account list as the code inspects it: a string, a
  \<open>PublicKey\<close> object (\<open>KPublicKey s\<close>, whose \<open>toBase58()\<close> is \<open>s\<close>), or a parsed account
  entry, an object with a \<open>pubkey\<close> field and no \<open>toBase58\<close> method. A field that may be
  \<open>undefined\<close> is an \<open>option\<close>; balances are lamports, integers.
\<close>

datatype acckey = KString string | KPublicKey string | KParsed acckey

datatype error = TypeError

record Message =
  staticAccountKeys :: "acckey list option"
  accountKeys :: "acckey list option"

record Transaction =
  signatures :: "string list option"
  message :: "Message option"

record Meta =
  preBalances :: "int list option"
  postBalances :: "int list option"

record Tx =
  transaction :: "Transaction option"
  meta :: "Meta option"

record 'r Outflow =
  amount :: real
  receiver :: 'r

text \<open>\<open>xs[i] ?? 0\<close> on an array of balances, and \<open>xs[i]\<close> on an array of keys.\<close>

definition at0 :: "int list \<Rightarrow> nat \<Rightarrow> int" where
  "at0 xs i = (if i < length xs then xs ! i else 0)"

definition nth_opt :: "'a list \<Rightarrow> nat \<Rightarrow> 'a option" where
  "nth_opt xs i = (if i < length xs then Some (xs ! i) else None)"

text \<open>\<open>findIndex\<close> and \<open>indexOf\<close>: the first matching position, \<open>None\<close> for \<open>-1\<close>.\<close>

fun findIndex :: "('a \<Rightarrow> bool) \<Rightarrow> 'a list \<Rightarrow> nat option" where
  "findIndex P [] = None"
| "findIndex P (x # xs) = (if P x then Some 0 else map_option Suc (findIndex P xs))"

text \<open>\<open>typeof k === 'string' ? k : k?.toBase58?.()\<close>\<close>

fun keyAddr :: "acckey \<Rightarrow> string option" where
  "keyAddr (KString s) = Some s"
| "keyAddr (KPublicKey s) = Some s"
| "keyAddr (KParsed p) = None"

text \<open>
  \<open>typeof addr === 'string' ? addr : addr?.toBase58?.() || String(addr)\<close>, where
  \<open>addr = accountKeys[i]\<close> is \<open>undefined\<close> past the end of the array. The string of a
  \<open>PublicKey\<close> is its base-58 form.
\<close>

fun receiverOf :: "acckey option \<Rightarrow> string" where
  "receiverOf None = ''undefined''"
| "receiverOf (Some (KString s)) = s"
| "receiverOf (Some (KPublicKey s)) = s"
| "receiverOf (Some (KParsed p)) = ''[object Object]''"

text \<open>\<open>(postBalances[i] ?? 0) - (preBalances[i] ?? 0)\<close>\<close>

definition gain :: "int list \<Rightarrow> int list \<Rightarrow> nat \<Rightarrow> int" where
  "gain pre post i = jsSub (at0 post i) (at0 pre i)"

text \<open>One round of the receiver loop of \<open>parseBlockTransactions\<close>.\<close>

definition gainStep ::
  "acckey list \<Rightarrow> int list \<Rightarrow> int list \<Rightarrow> nat \<Rightarrow> string \<times> int \<Rightarrow> nat \<Rightarrow> string \<times> int" where
  "gainStep keys pre post cexIdx acc i =
     (if gain pre post i > snd acc \<and> i \<noteq> cexIdx then (receiverOf (nth_opt keys i), gain pre post i)
      else acc)"

definition staticOrAccountKeys :: "Message \<Rightarrow> acckey list" where
  "staticOrAccountKeys msg =
     (case staticAccountKeys msg of
        Some ks \<Rightarrow> ks
      | None \<Rightarrow> (case accountKeys msg of Some ks \<Rightarrow> ks | None \<Rightarrow> []))"

definition parseBlockTransactions :: "Tx \<Rightarrow> string \<Rightarrow> error + string Outflow list" where
  "parseBlockTransactions tx cexAddress =
     (case meta tx of
        None \<Rightarrow> Inr []
      | Some m \<Rightarrow>
     (case transaction tx of
        None \<Rightarrow> Inl TypeError
      | Some t \<Rightarrow>
     (case message t of
        None \<Rightarrow> Inl TypeError
      | Some msg \<Rightarrow>
     (case findIndex (\<lambda>k. keyAddr k = Some cexAddress) (staticOrAccountKeys msg) of
        None \<Rightarrow> Inr []
      | Some cexIdx \<Rightarrow>
     (case (preBalances m, postBalances m) of
        (Some pre, Some post) \<Rightarrow>
          (let lamportsOut = jsSub (at0 pre cexIdx) (at0 post cexIdx)
           in if lamportsOut > 0
              then (let (receiver, maxGain) =
                          foldl (gainStep (staticOrAccountKeys msg) pre post cexIdx) ([], 0)
                            [0..<length post]
                    in if receiver \<noteq> [] \<and> maxGain > 0
                       then Inr [\<lparr>amount = jsDiv lamportsOut 1000000000,
                                  receiver = receiver\<rparr>]
                       else Inr [])
              else Inr [])
      | _ \<Rightarrow> Inr [])))))"

text \<open>\<open>typeof k === 'string' ? k : k.pubkey\<close>; a \<open>PublicKey\<close> has no such field.\<close>

fun pubkeyOf :: "acckey \<Rightarrow> acckey option" where
  "pubkeyOf (KString s) = Some (KString s)"
| "pubkeyOf (KPublicKey s) = None"
| "pubkeyOf (KParsed p) = Some p"

definition deltaStep ::
  "acckey option list \<Rightarrow> int list \<Rightarrow> int list \<Rightarrow> nat \<Rightarrow> acckey option \<times> int \<Rightarrow> nat
     \<Rightarrow> acckey option \<times> int" where
  "deltaStep keys pre post idx acc i =
     (if gain pre post i > snd acc \<and> i \<noteq> idx
      then (case nth_opt keys i of None \<Rightarrow> None | Some k \<Rightarrow> k, gain pre post i)
      else acc)"

definition parseOutgoing :: "Tx \<Rightarrow> string \<Rightarrow> error + (acckey option) Outflow option" where
  "parseOutgoing tx cexAddress =
     (case transaction tx of
        None \<Rightarrow> Inl TypeError
      | Some t \<Rightarrow>
     (case meta tx of
        None \<Rightarrow> Inr None
      | Some m \<Rightarrow>
     (case message t of
        None \<Rightarrow> Inl TypeError
      | Some msg \<Rightarrow>
     (case accountKeys msg of
        None \<Rightarrow> Inl TypeError
      | Some ks \<Rightarrow>
     (case findIndex (\<lambda>k. k = Some (KString cexAddress)) (map pubkeyOf ks) of
        None \<Rightarrow> Inr None
      | Some idx \<Rightarrow>
     (case (preBalances m, postBalances m) of
        (Some pre, Some post) \<Rightarrow>
          (let lamportsOut = jsSub (at0 pre idx) (at0 post idx)
           in if lamportsOut > 0
              then (let (receiver, maxDelta) =
                          foldl (deltaStep (map pubkeyOf ks) pre post idx) (None, 0)
                            [0..<length pre]
                    in Inr (Some \<lparr>amount = jsDiv lamportsOut 1000000000,
                                    receiver = receiver\<rparr>))
              else Inr None)
      | _ \<Rightarrow> Inr None))))))"

section \<open>BlockMonitorLoop: \<open>services/blockMonitor.ts\<close>\<close>

record CexConfig =
  label :: string
  address :: string
  ranges :: string

text \<open>
  The message handed to \<open>sendAlert\<close>, by the four values it is formatted from.
  \<open>sendAlert\<close> catches its own failures and never throws.
\<close>

record Alert =
  alertLabel :: string
  alertAmount :: real
  alertReceiver :: string
  alertSignature :: string

record Block =
  transactions :: "Tx list option"

text \<open>
  The state of a monitor: the watermark \<open>lastSlot\<close>, the alerts sent so far, and the
  arguments of the calls of \<open>saveLastSlot\<close> so far, each list in order of time.
\<close>

record Monitor =
  lastSlot :: nat
  sent :: "Alert list"
  saved :: "nat list"

text \<open>
  \<open>tx.transaction.signatures[0]\<close> of the polling monitor and
  \<open>tx.transaction.signatures?.[0]\<close> of the listener; \<open>Inr None\<close> is \<open>undefined\<close>.
\<close>

definition signature0 :: "Tx \<Rightarrow> error + string option" where
  "signature0 tx =
     (case transaction tx of
        None \<Rightarrow> Inl TypeError
      | Some t \<Rightarrow> (case signatures t of
                     None \<Rightarrow> Inl TypeError
                   | Some sigs \<Rightarrow> Inr (nth_opt sigs 0)))"

definition signature0_optional :: "Tx \<Rightarrow> error + string option" where
  "signature0_optional tx =
     (case transaction tx of
        None \<Rightarrow> Inl TypeError
      | Some t \<Rightarrow> (case signatures t of
                     None \<Rightarrow> Inr None
                   | Some sigs \<Rightarrow> Inr (nth_opt sigs 0)))"

text \<open>The loop over \<open>outflows\<close>: an alert for every outflow whose amount matches.\<close>

definition alertsFor :: "CexConfig \<Rightarrow> string \<Rightarrow> string Outflow list \<Rightarrow> Alert list" where
  "alertsFor cfg signature outflows =
     map (\<lambda>outflow. \<lparr>alertLabel = label cfg, alertAmount = amount outflow,
                      alertReceiver = receiver outflow, alertSignature = signature\<rparr>)
       (filter (\<lambda>outflow. amountMatchesRanges (Fin (amount outflow))
                            (parseRanges (Some (ranges cfg)))) outflows)"

text \<open>
  The loop over \<open>configs\<close> for one transaction. The result is the error thrown, if any,
  and the alerts sent up to then.
\<close>

fun processConfigs ::
  "Tx \<Rightarrow> string \<Rightarrow> CexConfig list \<Rightarrow> Alert list \<Rightarrow> error option \<times> Alert list" where
  "processConfigs tx signature [] out = (None, out)"
| "processConfigs tx signature (cfg # cfgs) out =
     (case parseBlockTransactions tx (address cfg) of
        Inl e \<Rightarrow> (Some e, out)
      | Inr outflows \<Rightarrow> processConfigs tx signature cfgs (out @ alertsFor cfg signature outflows))"

text \<open>The body of the loop over the transactions of a block.\<close>

definition processTransaction ::
  "(Tx \<Rightarrow> error + string option) \<Rightarrow> CexConfig list \<Rightarrow> Tx \<Rightarrow> Alert list
     \<Rightarrow> error option \<times> Alert list" where
  "processTransaction sigOf configs tx out =
     (case sigOf tx of
        Inl e \<Rightarrow> (Some e, out)
      | Inr None \<Rightarrow> (None, out)
      | Inr (Some signature) \<Rightarrow>
          if signature = [] then (None, out) else processConfigs tx signature configs out)"

fun processTransactions ::
  "(Tx \<Rightarrow> error + string option) \<Rightarrow> CexConfig list \<Rightarrow> Tx list \<Rightarrow> Alert list
     \<Rightarrow> error option \<times> Alert list" where
  "processTransactions sigOf configs [] out = (None, out)"
| "processTransactions sigOf configs (tx # txs) out =
     (case processTransaction sigOf configs tx out of
        (Some e, out') \<Rightarrow> (Some e, out')
      | (None, out') \<Rightarrow> processTransactions sigOf configs txs out')"

text \<open>\<open>msg.includes(pat)\<close>\<close>

fun str_includes :: "string \<Rightarrow> string \<Rightarrow> bool" where
  "str_includes [] pat = (pat = [])"
| "str_includes (c # cs) pat = (prefix pat (c # cs) \<or> str_includes cs pat)"

text \<open>
  The loop \<open>for (const s of batch)\<close> over the fetched results of one batch. \<open>getBlock s\<close>
  is what the fetch of slot \<open>s\<close> gave: \<open>Inl msg\<close> for an error with message \<open>msg\<close>,
  \<open>Inr\<close> of the block data otherwise. The state is \<open>processedUpTo\<close> and the alerts sent;
  every \<open>break\<close> returns it as it is.
\<close>

fun drainBatch ::
  "CexConfig list \<Rightarrow> (nat \<Rightarrow> string + Block option) \<Rightarrow> nat list \<Rightarrow> nat \<times> Alert list
     \<Rightarrow> nat \<times> Alert list" where
  "drainBatch configs getBlock [] acc = acc"
| "drainBatch configs getBlock (s # ss) acc =
     (case getBlock s of
        Inl msg \<Rightarrow>
          if str_includes msg ''skipped'' \<or> str_includes msg ''missing in long-term storage''
          then drainBatch configs getBlock ss (s, snd acc)
          else acc
      | Inr None \<Rightarrow> acc
      | Inr (Some blockData) \<Rightarrow>
          (case transactions blockData of
             None \<Rightarrow> acc
           | Some txs \<Rightarrow>
               (case processTransactions signature0 configs txs (snd acc) of
                  (Some e, out) \<Rightarrow> (fst acc, out)
                | (None, out) \<Rightarrow> drainBatch configs getBlock ss (s, out))))"

text \<open>
  One batch: drain it from \<open>processedUpTo = lastSlot\<close>, then advance \<open>lastSlot\<close>.
  \<open>saveLastSlot\<close> is not called.
\<close>

definition batchStep ::
  "CexConfig list \<Rightarrow> (nat \<Rightarrow> string + Block option) \<Rightarrow> nat list \<Rightarrow> Monitor \<Rightarrow> Monitor" where
  "batchStep configs getBlock batch st =
     (let (processedUpTo, out) = drainBatch configs getBlock batch (lastSlot st, sent st)
      in st\<lparr>lastSlot := (if processedUpTo > lastSlot st then processedUpTo else lastSlot st),
            sent := out\<rparr>)"

text \<open>
  The loop \<open>for (let i = 0; i < slotsToProcess.length; i += blockFetchConcurrency)\<close>.
  With a concurrency of \<open>0\<close> it never ends, which is the value \<open>None\<close>.
\<close>

partial_function (option) drainGap ::
  "CexConfig list \<Rightarrow> (nat \<Rightarrow> string + Block option) \<Rightarrow> nat \<Rightarrow> nat list \<Rightarrow> nat \<Rightarrow> Monitor
     \<Rightarrow> Monitor option" where
  "drainGap configs getBlock blockFetchConcurrency slotsToProcess i st =
     (if i < length slotsToProcess
      then drainGap configs getBlock blockFetchConcurrency slotsToProcess
             (i + blockFetchConcurrency)
             (batchStep configs getBlock
                (take blockFetchConcurrency (drop i slotsToProcess)) st)
      else Some st)"

declare drainGap.simps [code]

text \<open>
  One round of the \<open>while (true)\<close> loop, for a successful \<open>getSlot\<close> that gave \<open>slot\<close>:
  the gap is \<open>lastSlot + 1, ..., slot\<close>.
\<close>

definition pollOnce ::
  "CexConfig list \<Rightarrow> (nat \<Rightarrow> string + Block option) \<Rightarrow> nat \<Rightarrow> nat \<Rightarrow> Monitor
     \<Rightarrow> Monitor option" where
  "pollOnce configs getBlock blockFetchConcurrency slot st =
     (if slot > lastSlot st
      then drainGap configs getBlock blockFetchConcurrency [Suc (lastSlot st)..<Suc slot] 0 st
      else Some st)"

text \<open>
  Startup. \<open>lastSlots\<close> is what \<open>loadLastSlot\<close> read from the file, \<open>getSlot\<close> the outcome
  of the first \<open>conn.getSlot('confirmed')\<close>: \<open>None\<close> when it throws, which is caught and
  logged.
\<close>

definition startup :: "(string \<rightharpoonup> nat) \<Rightarrow> nat option \<Rightarrow> Monitor" where
  "startup lastSlots getSlot =
     \<lparr>lastSlot = (case getSlot of Some slot \<Rightarrow> slot | None \<Rightarrow> 0), sent = [], saved = []\<rparr>"

section \<open>The listener: \<open>services/blockMonitorListener.ts\<close>\<close>

text \<open>
  \<open>processQueue\<close> on the queue as it stands when it is entered. \<open>getBlock s\<close> is \<open>Inl\<close>
  when the fetch throws; \<open>saveOk s\<close> tells whether \<open>saveLastSlot({lastSlot: s})\<close>
  succeeds. Every error is caught by the one \<open>catch\<close>, which puts the slot back at the
  head of the queue and leaves the loop. The result is the queue left and the state.
\<close>

fun processQueue ::
  "CexConfig list \<Rightarrow> (nat \<Rightarrow> string + Block option) \<Rightarrow> (nat \<Rightarrow> bool) \<Rightarrow> nat list \<Rightarrow> Monitor
     \<Rightarrow> nat list \<times> Monitor" where
  "processQueue configs getBlock saveOk [] st = ([], st)"
| "processQueue configs getBlock saveOk (s # slotQueue) st =
     (if s \<le> lastSlot st then processQueue configs getBlock saveOk slotQueue st
      else
        (case getBlock s of
           Inl msg \<Rightarrow> (s # slotQueue, st)
         | Inr blockData \<Rightarrow>
             (case (case blockData of None \<Rightarrow> None | Some b \<Rightarrow> transactions b) of
                None \<Rightarrow>
                  (let st' = st\<lparr>lastSlot := s, saved := saved st @ [s]\<rparr>
                   in if saveOk s then processQueue configs getBlock saveOk slotQueue st'
                      else (s # slotQueue, st'))
              | Some txs \<Rightarrow>
                  (case processTransactions signature0_optional configs txs (sent st) of
                     (Some e, out) \<Rightarrow> (s # slotQueue, st\<lparr>sent := out\<rparr>)
                   | (None, out) \<Rightarrow>
                       (let st' = st\<lparr>lastSlot := s, sent := out, saved := saved st @ [s]\<rparr>
                        in if saveOk s then processQueue configs getBlock saveOk slotQueue st'
                           else (s # slotQueue, st'))))))"

section \<open>Sample inputs\<close>

text \<open>
  A transaction with a legacy message, as \<open>getBlock\<close> and \<open>getParsedTransaction\<close> give it
  when the account keys are listed under \<open>accountKeys\<close>.
\<close>

definition legacyTx :: "string \<Rightarrow> acckey list \<Rightarrow> int list \<Rightarrow> int list \<Rightarrow> Tx" where
  "legacyTx signature keys pre post =
     \<lparr>transaction = Some \<lparr>signatures = Some [signature],
                           message = Some \<lparr>staticAccountKeys = None, accountKeys = Some keys\<rparr>\<rparr>,
      meta = Some \<lparr>preBalances = Some pre, postBalances = Some post\<rparr>\<rparr>"


text \<open>The wallet of the README: label \<open>OKX\<close>, range \<open>17-21\<close>.\<close>

definition okx :: CexConfig where
  "okx = \<lparr>label = ''OKX'', address = ''ACC1'', ranges = ''17-21''\<rparr>"

text \<open>A provider for which every slot has a block without transactions.\<close>

definition emptyBlocks :: "nat \<Rightarrow> string + Block option" where
  "emptyBlocks s = Inr (Some \<lparr>transactions = Some []\<rparr>)"

text \<open>The same provider, rate-limited at slot 103.\<close>

definition failingAt103 :: "nat \<Rightarrow> string + Block option" where
  "failingAt103 s =
     (if s = 103 then Inl ''429 Too Many Requests'' else Inr (Some \<lparr>transactions = Some []\<rparr>))"

text \<open>A transfer of 19.5 SOL from \<open>ACC1\<close> to \<open>ACC2\<close>, and a transaction without body.\<close>

definition transferTx :: Tx where
  "transferTx =
     legacyTx ''sig'' [KString ''ACC1'', KString ''ACC2''] [20000000000, 0]
       [500000000, 19500000000]"

definition malformedTx :: Tx where
  "malformedTx = \<lparr>transaction = None, meta = None\<rparr>"

text \<open>A provider whose every block is the malformed transaction, then the transfer.\<close>

definition malformedThenTransfer :: "nat \<Rightarrow> string + Block option" where
  "malformedThenTransfer s = Inr (Some \<lparr>transactions = Some [malformedTx, transferTx]\<rparr>)"

text \<open>A provider whose block of slot 101 is that one and whose other blocks are empty.\<close>

definition malformedAt101 :: "nat \<Rightarrow> string + Block option" where
  "malformedAt101 s =
     (if s = 101 then Inr (Some \<lparr>transactions = Some [malformedTx, transferTx]\<rparr>)
      else Inr (Some \<lparr>transactions = Some []\<rparr>))"

text \<open>The same with the transfer before and after.\<close>

definition transferMalformedTransfer :: "nat \<Rightarrow> string + Block option" where
  "transferMalformedTransfer s =
     Inr (Some \<lparr>transactions = Some [transferTx, malformedTx, transferTx]\<rparr>)"

text \<open>A provider without block data, and a store whose save fails at slot 102.\<close>

definition noBlockData :: "nat \<Rightarrow> string + Block option" where
  "noBlockData s = Inr None"

definition saveFailsAt102 :: "nat \<Rightarrow> bool" where
  "saveFailsAt102 s = (s \<noteq> 102)"

text \<open>The contents of the watermark file: slot 50 persisted, and nothing persisted.\<close>

definition persisted50 :: "string \<rightharpoonup> nat" where
  "persisted50 = [''lastSlot'' \<mapsto> 50]"

definition nothingPersisted :: "string \<rightharpoonup> nat" where
  "nothingPersisted = Map.empty"

section \<open>Properties of the range set\<close>

lemmas range_eval = parseRanges_def tokenRange_def Number_def piece_def trim_def is_space_def
  signed_decimal_def unsigned_decimal_def is_exp_mark_def digit_in_def hex_val_def
  digits_value_def js_ge_def exponent_part_def scale10_def radix_literal_def

lemma split_nonempty: "split c s \<noteq> []"
  by (induction s) (auto split: list.splits)

lemma split_append: "split c (a @ c # b) = split c a @ split c b"
proof (induction a)
  case Nil
  show ?case by simp
next
  case (Cons x a)
  obtain t ts where ts: "split c a = t # ts"
    using split_nonempty [of c a] by (cases "split c a") auto
  show ?case using Cons ts by simp
qed

lemma split_none: "c \<notin> set s \<Longrightarrow> split c s = [s]"
  by (induction s) auto

lemma trim_spaces: "list_all is_space ws \<Longrightarrow> trim ws = []"
proof -
  assume "list_all is_space ws"
  then have h: "dropWhile is_space ws = []" by (induction ws) auto
  show ?thesis unfolding trim_def h by simp
qed

lemma comma_no_space: "\<not> is_space (CHR '','')"
  by (simp add: is_space_def)

lemma spaces_no_comma: "list_all is_space ws \<Longrightarrow> CHR '','' \<notin> set ws"
  using comma_no_space by (induction ws) auto

lemma parseRanges_tokens:
  "parseRanges (Some s) =
     map tokenRange (filter (\<lambda>t. t \<noteq> []) (map trim (split (CHR '','') s)))"
  by (simp add: parseRanges_def trim_def)

lemma parseRanges_comma:
  "parseRanges (Some (a @ CHR '','' # b)) = parseRanges (Some a) @ parseRanges (Some b)"
  by (simp add: parseRanges_tokens split_append)

lemma parseRanges_single:
  "CHR '','' \<notin> set t \<Longrightarrow>
   parseRanges (Some t) = (if trim t = [] then [] else [tokenRange (trim t)])"
  by (simp add: parseRanges_tokens split_none)

lemma parseRanges_spaces:
  assumes "list_all is_space ws"
  shows "parseRanges (Some ws) = []"
  using parseRanges_single [OF spaces_no_comma [OF assms]] trim_spaces [OF assms] by simp

lemma tokenRange_no_dash:
  "CHR ''-'' \<notin> set t \<Longrightarrow> tokenRange t = \<lparr>rmin = Number (Some t), rmax = NaN\<rparr>"
  by (simp add: tokenRange_def split_none piece_def Number_def)

lemma tokenRange_two:
  "CHR ''-'' \<notin> set a \<Longrightarrow> CHR ''-'' \<notin> set b \<Longrightarrow>
   tokenRange (a @ CHR ''-'' # b) = \<lparr>rmin = Number (Some a), rmax = Number (Some b)\<rparr>"
  by (simp add: tokenRange_def split_append split_none piece_def)

lemma tokenRange_more:
  "CHR ''-'' \<notin> set a \<Longrightarrow> CHR ''-'' \<notin> set b \<Longrightarrow>
   tokenRange (a @ CHR ''-'' # b @ CHR ''-'' # c) =
     \<lparr>rmin = Number (Some a), rmax = Number (Some b)\<rparr>"
  by (simp add: tokenRange_def split_append split_none piece_def)

lemma js_le_NaN_right [simp]: "js_le a NaN = False"
  by (cases a) auto

lemma matches_iff:
  "amountMatchesRanges amt rs \<longleftrightarrow>
     (\<exists>r \<in> set rs. js_le (rmin r) amt \<and> js_le amt (rmax r))"
  by (induction rs) (auto simp: js_ge_def)

lemma nan_never:
  "rmin r = NaN \<or> rmax r = NaN \<Longrightarrow>
   amountMatchesRanges amt (rsa @ r # rsb) = amountMatchesRanges amt (rsa @ rsb)"
  by (auto simp: matches_iff)

text \<open>
  Claim C8, as the code has it. \<open>parseRanges\<close> cuts the specification at every comma and
  keeps the order of the tokens; a token is trimmed and cut at every \<open>-\<close>, and the first two
  pieces are converted with \<open>Number\<close>, further pieces being ignored; a token without \<open>-\<close>
  has the upper bound \<open>NaN\<close>, and the empty piece converts to \<open>0\<close>. An interval with a
  \<open>NaN\<close> bound never matches. \<open>parseRanges\<close> of \<open>17-21,50-100\<close> is the two intervals in
  order, and of the empty string the empty list. \<open>amountMatchesRanges\<close> holds exactly when
  some interval has \<open>min \<le> amount \<le> max\<close>, both bounds included, so the empty list matches
  nothing.
\<close>

theorem parseRanges_amountMatchesRanges:
  "parseRanges None = [] \<and> parseRanges (Some []) = []
   \<and> parseRanges (Some ''17-21,50-100'') =
        [\<lparr>rmin = Fin 17, rmax = Fin 21\<rparr>, \<lparr>rmin = Fin 50, rmax = Fin 100\<rparr>]
   \<and> parseRanges (Some (x @ CHR '','' # y)) = parseRanges (Some x) @ parseRanges (Some y)
   \<and> (CHR '','' \<notin> set tok \<and> trim tok \<noteq> [] \<longrightarrow>
        parseRanges (Some tok) = [tokenRange (trim tok)])
   \<and> (CHR ''-'' \<notin> set a \<longrightarrow> tokenRange a = \<lparr>rmin = Number (Some a), rmax = NaN\<rparr>)
   \<and> (CHR ''-'' \<notin> set a \<and> CHR ''-'' \<notin> set b \<longrightarrow>
        tokenRange (a @ CHR ''-'' # b) = \<lparr>rmin = Number (Some a), rmax = Number (Some b)\<rparr> \<and>
        tokenRange (a @ CHR ''-'' # b @ CHR ''-'' # c) =
          \<lparr>rmin = Number (Some a), rmax = Number (Some b)\<rparr>)
   \<and> Number (Some []) = Fin 0
   \<and> (rmin r = NaN \<or> rmax r = NaN \<longrightarrow>
        amountMatchesRanges amt (rsa @ r # rsb) = amountMatchesRanges amt (rsa @ rsb))
   \<and> (amountMatchesRanges amt rs \<longleftrightarrow>
        (\<exists>r \<in> set rs. js_le (rmin r) amt \<and> js_le amt (rmax r)))
   \<and> \<not> amountMatchesRanges amt []"
proof (intro conjI impI)
  show "parseRanges (Some ''17-21,50-100'') =
        [\<lparr>rmin = Fin 17, rmax = Fin 21\<rparr>, \<lparr>rmin = Fin 50, rmax = Fin 100\<rparr>]"
    by (simp add: range_eval)
  show "Number (Some []) = Fin 0"
    by (simp add: Number_def trim_def)
  show "parseRanges None = []" "parseRanges (Some []) = []"
    by (simp_all add: parseRanges_def)
  show "parseRanges (Some (x @ CHR '','' # y)) = parseRanges (Some x) @ parseRanges (Some y)"
    by (rule parseRanges_comma)
  show "parseRanges (Some tok) = [tokenRange (trim tok)]"
    if "CHR '','' \<notin> set tok \<and> trim tok \<noteq> []"
    using that by (simp add: parseRanges_single)
  show "tokenRange a = \<lparr>rmin = Number (Some a), rmax = NaN\<rparr>" if "CHR ''-'' \<notin> set a"
    using that by (rule tokenRange_no_dash)
  show "tokenRange (a @ CHR ''-'' # b) = \<lparr>rmin = Number (Some a), rmax = Number (Some b)\<rparr>"
    if "CHR ''-'' \<notin> set a \<and> CHR ''-'' \<notin> set b"
    using that by (simp add: tokenRange_two)
  show "tokenRange (a @ CHR ''-'' # b @ CHR ''-'' # c) =
          \<lparr>rmin = Number (Some a), rmax = Number (Some b)\<rparr>"
    if "CHR ''-'' \<notin> set a \<and> CHR ''-'' \<notin> set b"
    using that by (simp add: tokenRange_more)
  show "amountMatchesRanges amt (rsa @ r # rsb) = amountMatchesRanges amt (rsa @ rsb)"
    if "rmin r = NaN \<or> rmax r = NaN"
    using that by (rule nan_never)
  show "amountMatchesRanges amt rs \<longleftrightarrow>
        (\<exists>r \<in> set rs. js_le (rmin r) amt \<and> js_le amt (rmax r))"
    by (rule matches_iff)
  show "\<not> amountMatchesRanges amt []"
    by simp
qed

theorem parseRanges_amountMatchesRanges_witness:
  "parseRanges (Some ''17-21,50-100'') = parseRanges (Some ''17-21'') @ parseRanges (Some ''50-100'')
   \<and> parseRanges (Some '' 5 '') = [\<lparr>rmin = Fin 5, rmax = NaN\<rparr>]
   \<and> tokenRange ''abc'' = \<lparr>rmin = NaN, rmax = NaN\<rparr>
   \<and> tokenRange ''17-21'' = \<lparr>rmin = Fin 17, rmax = Fin 21\<rparr>
   \<and> tokenRange ''17-21-9'' = \<lparr>rmin = Fin 17, rmax = Fin 21\<rparr>
   \<and> amountMatchesRanges (Fin 17) [\<lparr>rmin = NaN, rmax = Fin 99\<rparr>, \<lparr>rmin = Fin 17, rmax = Fin 21\<rparr>]
   \<and> amountMatchesRanges (Fin 21) [\<lparr>rmin = Fin 17, rmax = Fin 21\<rparr>]
   \<and> \<not> amountMatchesRanges (Fin 22) [\<lparr>rmin = Fin 17, rmax = Fin 21\<rparr>]"
proof -
  note t = parseRanges_amountMatchesRanges
  have c1: "parseRanges (Some ''17-21,50-100'') =
              parseRanges (Some ''17-21'') @ parseRanges (Some ''50-100'')"
    by (rule t [where x = "''17-21''" and y = "''50-100''", simplified append.simps,
          THEN conjunct2, THEN conjunct2, THEN conjunct2, THEN conjunct1])
  have c2: "parseRanges (Some '' 5 '') = [\<lparr>rmin = Fin 5, rmax = NaN\<rparr>]"
    using t [where tok = "'' 5 ''" and a = "''5''"] by (simp add: range_eval)
  have c3: "tokenRange ''abc'' = \<lparr>rmin = NaN, rmax = NaN\<rparr>"
    using t [where a = "''abc''"] by (simp add: range_eval)
  have c4: "tokenRange ''17-21'' = \<lparr>rmin = Fin 17, rmax = Fin 21\<rparr>"
    "tokenRange ''17-21-9'' = \<lparr>rmin = Fin 17, rmax = Fin 21\<rparr>"
    using t [where a = "''17''" and b = "''21''" and c = "''9''"] by (simp_all add: range_eval)
  have c5: "amountMatchesRanges (Fin 17)
              [\<lparr>rmin = NaN, rmax = Fin 99\<rparr>, \<lparr>rmin = Fin 17, rmax = Fin 21\<rparr>]"
    using t [where r = "\<lparr>rmin = NaN, rmax = Fin 99\<rparr>" and amt = "Fin 17" and rsa = "[]"
        and rsb = "[\<lparr>rmin = Fin 17, rmax = Fin 21\<rparr>]"]
    by (simp add: js_ge_def)
  have c6: "amountMatchesRanges (Fin 21) [\<lparr>rmin = Fin 17, rmax = Fin 21\<rparr>]"
    "\<not> amountMatchesRanges (Fin 22) [\<lparr>rmin = Fin 17, rmax = Fin 21\<rparr>]"
    using t [where amt = "Fin 21" and rs = "[\<lparr>rmin = Fin 17, rmax = Fin 21\<rparr>]"]
      t [where amt = "Fin 22" and rs = "[\<lparr>rmin = Fin 17, rmax = Fin 21\<rparr>]"]
    by (simp_all add: js_ge_def)
  show ?thesis using c1 c2 c3 c4 c5 c6 by simp
qed

text \<open>
  Against claim C8 as it is written. The token \<open>-5\<close> has no first endpoint, yet its
  interval is \<open>0\<close> to \<open>5\<close>, no bound is \<open>NaN\<close>, and the amount \<open>3\<close> matches it. The token
  \<open>1-2-3\<close>, cut at its first \<open>-\<close>, has the second endpoint \<open>2-3\<close>, which is not a number,
  yet its interval is \<open>1\<close> to \<open>2\<close> and the amount \<open>1.5\<close> matches it.
\<close>

theorem parseRanges_malformed_counterexample:
  "parseRanges (Some ''-5'') = [\<lparr>rmin = Fin 0, rmax = Fin 5\<rparr>]
   \<and> amountMatchesRanges (Fin 3) (parseRanges (Some ''-5''))
   \<and> Number (Some ''2-3'') = NaN
   \<and> parseRanges (Some ''1-2-3'') = [\<lparr>rmin = Fin 1, rmax = Fin 2\<rparr>]
   \<and> amountMatchesRanges (Fin (3 / 2)) (parseRanges (Some ''1-2-3''))"
  by (simp add: range_eval)

text \<open>
  Claim C10. A token that is empty once trimmed is dropped before any interval is built:
  between two commas, before the first or after the last, it leaves the result as it is
  without it, and the number of intervals is the number of tokens that are not blank.
  \<open>17-21,,\<close> gives the one interval of \<open>17-21\<close>.
\<close>

theorem blank_tokens_dropped:
  "(list_all is_space ws \<longrightarrow>
      parseRanges (Some (x @ CHR '','' # ws @ CHR '','' # y)) =
        parseRanges (Some (x @ CHR '','' # y)) \<and>
      parseRanges (Some (ws @ CHR '','' # y)) = parseRanges (Some y) \<and>
      parseRanges (Some (x @ CHR '','' # ws)) = parseRanges (Some x))
   \<and> length (parseRanges (Some s)) =
        length (filter (\<lambda>t. trim t \<noteq> []) (split (CHR '','') s))
   \<and> parseRanges (Some ''17-21,,'') = [\<lparr>rmin = Fin 17, rmax = Fin 21\<rparr>]"
proof (intro conjI impI)
  assume ws: "list_all is_space ws"
  have e: "parseRanges (Some ws) = []" by (rule parseRanges_spaces [OF ws])
  show "parseRanges (Some (x @ CHR '','' # ws @ CHR '','' # y)) =
          parseRanges (Some (x @ CHR '','' # y))"
    using parseRanges_comma [of x "ws @ CHR '','' # y"] parseRanges_comma [of ws y]
      parseRanges_comma [of x y] e
    by simp
  show "parseRanges (Some (ws @ CHR '','' # y)) = parseRanges (Some y)"
    using parseRanges_comma [of ws y] e by simp
  show "parseRanges (Some (x @ CHR '','' # ws)) = parseRanges (Some x)"
    using parseRanges_comma [of x ws] e by simp
next
  show "length (parseRanges (Some s)) =
          length (filter (\<lambda>t. trim t \<noteq> []) (split (CHR '','') s))"
    by (simp add: parseRanges_tokens filter_map o_def)
next
  show "parseRanges (Some ''17-21,,'') = [\<lparr>rmin = Fin 17, rmax = Fin 21\<rparr>]"
    by (simp add: range_eval)
qed

theorem blank_tokens_dropped_witness:
  "list_all is_space '' ''
   \<and> parseRanges (Some ''17-21, ,50-100'') = parseRanges (Some ''17-21,50-100'')
   \<and> parseRanges (Some '' ,50-100'') = parseRanges (Some ''50-100'')
   \<and> parseRanges (Some ''17-21, '') = parseRanges (Some ''17-21'')"
proof -
  have ws: "list_all is_space '' ''" by (simp add: is_space_def)
  from blank_tokens_dropped [of "'' ''" "''17-21''" "''50-100''", THEN conjunct1] ws
  show ?thesis by simp
qed

section \<open>Properties of the arithmetic\<close>

lemma bitLength_lower: "0 < n \<Longrightarrow> 2 ^ (bitLength n - 1) \<le> n"
proof (induction n rule: bitLength.induct)
  case (1 n)
  show ?case
  proof (cases "n div 2 = 0")
    case True
    then have "bitLength (n div 2) = 0" by (simp add: bitLength.simps)
    then have "bitLength n = 1" using "1.prems" by (subst bitLength.simps) simp
    then show ?thesis using "1.prems" by simp
  next
    case False
    then have pos: "0 < n div 2" by simp
    have ih: "2 ^ (bitLength (n div 2) - 1) \<le> n div 2"
      using "1.IH" "1.prems" pos by simp
    have bl: "bitLength n = Suc (bitLength (n div 2))"
      using "1.prems" by (subst bitLength.simps) simp
    have bp: "0 < bitLength (n div 2)" using pos by (subst bitLength.simps) simp
    have "(2::nat) ^ (bitLength n - 1) = 2 * 2 ^ (bitLength (n div 2) - 1)"
      using bl bp by (cases "bitLength (n div 2)") simp_all
    also have "\<dots> \<le> 2 * (n div 2)" using ih by simp
    also have "\<dots> \<le> n" by simp
    finally show ?thesis .
  qed
qed


lemma roundHalfEven_ge: "n div d \<le> roundHalfEven n d"
  by (simp add: roundHalfEven_def Let_def)

lemma jsSub_sgn: "sgn (jsSub x y) = sgn (x - y)"
proof (cases "bitLength (nat \<bar>x - y\<bar>) \<le> 53")
  case True
  then show ?thesis by (simp add: jsSub_def Let_def)
next
  case False
  let ?a = "nat \<bar>x - y\<bar>"
  let ?b = "bitLength ?a"
  let ?q = "(2::nat) ^ (?b - 53)"
  have apos: "0 < ?a" using False by (cases "?a = 0") (simp_all add: bitLength.simps)
  have "?q \<le> 2 ^ (?b - 1)" by (rule power_increasing) simp_all
  also have "\<dots> \<le> ?a" by (rule bitLength_lower [OF apos])
  finally have "?q \<le> ?a" .
  then have "1 \<le> ?a div ?q" by (simp add: div_greater_zero_iff Suc_le_eq)
  then have "0 < roundHalfEven ?a ?q" using roundHalfEven_ge [of ?a ?q] by linarith
  then have "0 < int (roundHalfEven ?a ?q * ?q)" by simp
  then have "sgn (int (roundHalfEven ?a ?q * ?q)) = 1" by (simp only: sgn_1_pos)
  then have "sgn (sgn (x - y) * int (roundHalfEven ?a ?q * ?q)) = sgn (x - y)"
    by (simp only: sgn_mult sgn_sgn mult_1_right)
  then show ?thesis using False by (simp add: jsSub_def Let_def)
qed

lemma jsSub_pos: "0 < jsSub x y \<longleftrightarrow> y < x"
  using jsSub_sgn [of x y] by (metis sgn_greater diff_gt_0_iff_gt)


lemma jsSub_nonpos: "jsSub x y \<le> 0 \<longleftrightarrow> x \<le> y"
  using jsSub_pos [of x y] by linarith

lemmas js_eval = jsSub_def jsDiv_def bitLength.simps roundHalfEven_def Let_def

section \<open>Properties of the extractors\<close>

lemma scan_inv:
  fixes g :: "nat \<Rightarrow> int"
  assumes step: "\<And>acc i. step acc i = (if g i > snd acc \<and> i \<noteq> idx then (f i, g i) else acc)"
  shows "(foldl step (a0, 0) [0..<n] = (a0, 0) \<and> (\<forall>j<n. j \<noteq> idx \<longrightarrow> g j \<le> 0)) \<or>
         (\<exists>r<n. r \<noteq> idx \<and> 0 < g r \<and> foldl step (a0, 0) [0..<n] = (f r, g r) \<and>
                 (\<forall>j<n. j \<noteq> idx \<longrightarrow> g j \<le> g r) \<and> (\<forall>j<r. j \<noteq> idx \<longrightarrow> g j < g r))"
proof (induction n)
  case 0
  show ?case by simp
next
  case (Suc n)
  have unfold: "foldl step (a0, 0) [0..<Suc n] = step (foldl step (a0, 0) [0..<n]) n"
    by simp
  from Suc show ?case
  proof
    assume A: "foldl step (a0, 0) [0..<n] = (a0, 0) \<and> (\<forall>j<n. j \<noteq> idx \<longrightarrow> g j \<le> 0)"
    show ?thesis
    proof (cases "g n > 0 \<and> n \<noteq> idx")
      case True
      have "foldl step (a0, 0) [0..<Suc n] = (f n, g n)"
        using A True by (simp add: step)
      moreover have "\<forall>j<Suc n. j \<noteq> idx \<longrightarrow> g j \<le> g n"
        using A True by (auto simp: less_Suc_eq)
      moreover have "\<forall>j<n. j \<noteq> idx \<longrightarrow> g j < g n"
        using A True by auto
      ultimately show ?thesis using True by blast
    next
      case False
      have "foldl step (a0, 0) [0..<Suc n] = (a0, 0)"
        using A False by (auto simp: step)
      moreover have "\<forall>j<Suc n. j \<noteq> idx \<longrightarrow> g j \<le> 0"
        using A False by (auto simp: less_Suc_eq)
      ultimately show ?thesis by blast
    qed
  next
    assume "\<exists>r<n. r \<noteq> idx \<and> 0 < g r \<and> foldl step (a0, 0) [0..<n] = (f r, g r) \<and>
                 (\<forall>j<n. j \<noteq> idx \<longrightarrow> g j \<le> g r) \<and> (\<forall>j<r. j \<noteq> idx \<longrightarrow> g j < g r)"
    then obtain r where r: "r < n" "r \<noteq> idx" "0 < g r"
        "foldl step (a0, 0) [0..<n] = (f r, g r)"
        "\<forall>j<n. j \<noteq> idx \<longrightarrow> g j \<le> g r" "\<forall>j<r. j \<noteq> idx \<longrightarrow> g j < g r"
      by blast
    show ?thesis
    proof (cases "g n > g r \<and> n \<noteq> idx")
      case True
      have "foldl step (a0, 0) [0..<Suc n] = (f n, g n)"
        using r True by (simp add: step)
      moreover have "\<forall>j<Suc n. j \<noteq> idx \<longrightarrow> g j \<le> g n"
        using r True by (fastforce simp: less_Suc_eq)
      moreover have "\<forall>j<n. j \<noteq> idx \<longrightarrow> g j < g n"
        using r True by fastforce
      moreover have "0 < g n" using r True by simp
      ultimately show ?thesis using True by blast
    next
      case False
      have "foldl step (a0, 0) [0..<Suc n] = (f r, g r)"
        using r False by (auto simp: step)
      moreover have "\<forall>j<Suc n. j \<noteq> idx \<longrightarrow> g j \<le> g r"
        using r False by (auto simp: less_Suc_eq)
      moreover have "r < Suc n" using r by simp
      ultimately show ?thesis using r by blast
    qed
  qed
qed

lemma scan_none:
  fixes g :: "nat \<Rightarrow> int"
  assumes step: "\<And>acc i. step acc i = (if g i > snd acc \<and> i \<noteq> idx then (f i, g i) else acc)"
    and none: "\<forall>j<n. j \<noteq> idx \<longrightarrow> g j \<le> 0"
  shows "foldl step (a0, 0) [0..<n] = (a0, 0)"
  using scan_inv [of step g idx f a0 n, OF step] none by fastforce



lemma gainStep_eq:
  "gainStep keys pre post cexIdx acc i =
     (if gain pre post i > snd acc \<and> i \<noteq> cexIdx then (receiverOf (nth_opt keys i), gain pre post i) else acc)"
  by (simp add: gainStep_def)

lemma deltaStep_eq:
  "deltaStep keys pre post idx acc i =
     (if gain pre post i > snd acc \<and> i \<noteq> idx
      then (case nth_opt keys i of None \<Rightarrow> None | Some k \<Rightarrow> k, gain pre post i) else acc)"
  by (simp add: deltaStep_def)

lemma findIndex_None: "findIndex P xs = None \<longleftrightarrow> (\<forall>x \<in> set xs. \<not> P x)"
  by (induction xs) auto


lemma pbt_unfold:
  assumes "meta tx = Some m" "transaction tx = Some t" "message t = Some msg"
    "preBalances m = Some pre" "postBalances m = Some post"
    "findIndex (\<lambda>k. keyAddr k = Some cexAddress) (staticOrAccountKeys msg) = Some cexIdx"
    "at0 post cexIdx < at0 pre cexIdx"
    "foldl (gainStep (staticOrAccountKeys msg) pre post cexIdx) ([], 0) [0..<length post] = (rc, mg)"
  shows "parseBlockTransactions tx cexAddress =
     (if rc \<noteq> [] \<and> mg > 0
      then Inr [\<lparr>amount = jsDiv (jsSub (at0 pre cexIdx) (at0 post cexIdx)) 1000000000,
                 receiver = rc\<rparr>]
      else Inr [])"
  using assms by (simp add: parseBlockTransactions_def jsSub_pos)

lemma po_unfold:
  assumes "meta tx = Some m" "transaction tx = Some t" "message t = Some msg"
    "preBalances m = Some pre" "postBalances m = Some post" "accountKeys msg = Some ks"
    "findIndex (\<lambda>k. k = Some (KString cexAddress)) (map pubkeyOf ks) = Some idx"
    "at0 post idx < at0 pre idx"
    "foldl (deltaStep (map pubkeyOf ks) pre post idx) (None, 0) [0..<length pre] = (rc, mg)"
  shows "parseOutgoing tx cexAddress =
     Inr (Some \<lparr>amount = jsDiv (jsSub (at0 pre idx) (at0 post idx)) 1000000000,
                 receiver = rc\<rparr>)"
  using assms by (simp add: parseOutgoing_def jsSub_pos)

lemma pbt_cases:
  assumes "parseBlockTransactions tx cexAddress = Inr evs" "ev \<in> set evs"
  obtains m t msg pre post cexIdx rc mg where
    "meta tx = Some m" "transaction tx = Some t" "message t = Some msg"
    "preBalances m = Some pre" "postBalances m = Some post"
    "findIndex (\<lambda>k. keyAddr k = Some cexAddress) (staticOrAccountKeys msg) = Some cexIdx"
    "at0 post cexIdx < at0 pre cexIdx"
    "foldl (gainStep (staticOrAccountKeys msg) pre post cexIdx) ([], 0) [0..<length post] = (rc, mg)"
    "rc \<noteq> []" "0 < mg"
    "evs = [\<lparr>amount = jsDiv (jsSub (at0 pre cexIdx) (at0 post cexIdx)) 1000000000,
             receiver = rc\<rparr>]"
  using assms
  by (auto simp: parseBlockTransactions_def Let_def jsSub_pos
      split: option.splits if_splits prod.splits)

lemma po_cases:
  assumes "parseOutgoing tx cexAddress = Inr (Some ev)"
  obtains m t msg pre post ks idx rc mg where
    "meta tx = Some m" "transaction tx = Some t" "message t = Some msg"
    "preBalances m = Some pre" "postBalances m = Some post" "accountKeys msg = Some ks"
    "findIndex (\<lambda>k. k = Some (KString cexAddress)) (map pubkeyOf ks) = Some idx"
    "at0 post idx < at0 pre idx"
    "foldl (deltaStep (map pubkeyOf ks) pre post idx) (None, 0) [0..<length pre] = (rc, mg)"
    "ev = \<lparr>amount = jsDiv (jsSub (at0 pre idx) (at0 post idx)) 1000000000, receiver = rc\<rparr>"
  using assms
  by (auto simp: parseOutgoing_def Let_def jsSub_pos
      split: option.splits if_splits prod.splits)

lemmas tx_eval = legacyTx_def staticOrAccountKeys_def at0_def gain_def nth_opt_def
  gainStep_def deltaStep_def js_eval

text \<open>
  Claim C5, as the code has it. When the target's balance strictly decreases and no other
  account of the balance arrays has a positive increase, \<open>parseOutgoing\<close> still returns
  the outgoing amount, with an undefined receiver; \<open>parseBlockTransactions\<close>, which the
  block monitor calls, returns no outflow at all, by its guard
  \<open>if (receiver && maxGain > 0)\<close>.
\<close>

theorem no_gainer_outcome:
  assumes "meta tx = Some m" "transaction tx = Some t" "message t = Some msg"
    "preBalances m = Some pre" "postBalances m = Some post"
  shows "(findIndex (\<lambda>k. keyAddr k = Some cexAddress) (staticOrAccountKeys msg) = Some i \<and>
          at0 post i < at0 pre i \<and> (\<forall>j<length post. j \<noteq> i \<longrightarrow> gain pre post j \<le> 0)
          \<longrightarrow> parseBlockTransactions tx cexAddress = Inr [])
       \<and> (accountKeys msg = Some ks \<and>
          findIndex (\<lambda>k. k = Some (KString cexAddress)) (map pubkeyOf ks) = Some i' \<and>
          at0 post i' < at0 pre i' \<and> (\<forall>j<length pre. j \<noteq> i' \<longrightarrow> gain pre post j \<le> 0)
          \<longrightarrow> parseOutgoing tx cexAddress =
                Inr (Some \<lparr>amount = jsDiv (jsSub (at0 pre i') (at0 post i')) 1000000000,
                            receiver = None\<rparr>))"
proof (intro conjI impI)
  assume h: "findIndex (\<lambda>k. keyAddr k = Some cexAddress) (staticOrAccountKeys msg) = Some i \<and>
          at0 post i < at0 pre i \<and> (\<forall>j<length post. j \<noteq> i \<longrightarrow> gain pre post j \<le> 0)"
  have "foldl (gainStep (staticOrAccountKeys msg) pre post i) ([], 0) [0..<length post] = ([], 0)"
    using h by (intro scan_none [OF gainStep_eq]) simp
  with pbt_unfold [OF assms, of cexAddress i "[]" 0] h
  show "parseBlockTransactions tx cexAddress = Inr []" by simp
next
  assume h: "accountKeys msg = Some ks \<and>
          findIndex (\<lambda>k. k = Some (KString cexAddress)) (map pubkeyOf ks) = Some i' \<and>
          at0 post i' < at0 pre i' \<and> (\<forall>j<length pre. j \<noteq> i' \<longrightarrow> gain pre post j \<le> 0)"
  have "foldl (deltaStep (map pubkeyOf ks) pre post i') (None, 0) [0..<length pre] = (None, 0)"
    using h by (intro scan_none [OF deltaStep_eq]) simp
  with po_unfold [OF assms, of ks cexAddress i' None 0] h
  show "parseOutgoing tx cexAddress =
     Inr (Some \<lparr>amount = jsDiv (jsSub (at0 pre i') (at0 post i')) 1000000000,
                 receiver = None\<rparr>)"
    by simp
qed

theorem no_gainer_outcome_witness:
  "parseBlockTransactions
     (legacyTx ''sig'' [KString ''ACC1'', KString ''ACC2''] [10000000000, 5] [3000000000, 5])
     ''ACC1'' = Inr []
   \<and> parseOutgoing
     (legacyTx ''sig'' [KString ''ACC1'', KString ''ACC2''] [10000000000, 5] [3000000000, 5])
     ''ACC1'' = Inr (Some \<lparr>amount = 7, receiver = None\<rparr>)"
proof -
  let ?keys = "[KString ''ACC1'', KString ''ACC2'']"
  let ?pre = "[10000000000, 5 :: int]"
  let ?post = "[3000000000, 5 :: int]"
  let ?tx = "legacyTx ''sig'' ?keys ?pre ?post"
  let ?msg = "\<lparr>staticAccountKeys = None, accountKeys = Some ?keys\<rparr>"
  have q: "\<forall>j<length ?post. j \<noteq> 0 \<longrightarrow> gain ?pre ?post j \<le> 0"
    by (simp add: gain_def at0_def less_Suc_eq jsSub_nonpos)
  have q': "\<forall>j<length ?pre. j \<noteq> 0 \<longrightarrow> gain ?pre ?post j \<le> 0"
    by (simp add: gain_def at0_def less_Suc_eq jsSub_nonpos)
  let ?m = "\<lparr>preBalances = Some ?pre, postBalances = Some ?post\<rparr>"
  let ?t = "\<lparr>signatures = Some [''sig''], message = Some ?msg\<rparr>"
  have s: "meta ?tx = Some ?m" "transaction ?tx = Some ?t" "message ?t = Some ?msg"
    "preBalances ?m = Some ?pre" "postBalances ?m = Some ?post"
    by (simp_all add: legacyTx_def)
  from no_gainer_outcome [OF s, where cexAddress = "''ACC1''" and i = 0 and ks = ?keys
      and i' = 0] q q'
  show ?thesis by (simp add: staticOrAccountKeys_def at0_def js_eval)
qed

text \<open>
  Against claim C5 as it is written: \<open>ACC1\<close> falls from 10 to 3 SOL and the only other
  account is unchanged, and \<open>parseBlockTransactions\<close> emits nothing.
\<close>

theorem no_gainer_counterexample:
  "parseBlockTransactions
     (legacyTx ''sig'' [KString ''ACC1'', KString ''ACC2''] [10000000000, 5] [3000000000, 5])
     ''ACC1'' = Inr []
   \<and> at0 [3000000000, 5] 0 < at0 [10000000000, 5] 0
   \<and> gain [10000000000, 5] [3000000000, 5] 1 = 0"
  by (simp add: parseBlockTransactions_def tx_eval)




text \<open>
  Claim C7. Each extractor yields at most one event for a transaction and a target. An
  event implies that the target is in the account list and that its balance strictly
  decreased; when the target is absent, or its balance is unchanged or increases, the
  result is empty.
\<close>

theorem extractor_zero_or_one:
  "(parseBlockTransactions tx cexAddress = Inr evs \<longrightarrow> length evs \<le> 1)
   \<and> (parseBlockTransactions tx cexAddress = Inr (ev # evs') \<longrightarrow>
        (\<exists>m t msg pre post i. meta tx = Some m \<and> transaction tx = Some t \<and> message t = Some msg \<and>
           preBalances m = Some pre \<and> postBalances m = Some post \<and>
           findIndex (\<lambda>k. keyAddr k = Some cexAddress) (staticOrAccountKeys msg) = Some i \<and>
           at0 post i < at0 pre i))
   \<and> (transaction tx = Some t \<and> message t = Some msg \<and>
        (\<forall>k \<in> set (staticOrAccountKeys msg). keyAddr k \<noteq> Some cexAddress)
        \<longrightarrow> parseBlockTransactions tx cexAddress = Inr [])
   \<and> (transaction tx = Some t \<and> message t = Some msg \<and> meta tx = Some m \<and>
        preBalances m = Some pre \<and> postBalances m = Some post \<and>
        findIndex (\<lambda>k. keyAddr k = Some cexAddress) (staticOrAccountKeys msg) = Some i \<and>
        at0 pre i \<le> at0 post i
        \<longrightarrow> parseBlockTransactions tx cexAddress = Inr [])
   \<and> (parseOutgoing tx cexAddress = Inr (Some og) \<longrightarrow>
        (\<exists>m t msg ks pre post i. meta tx = Some m \<and> transaction tx = Some t \<and>
           message t = Some msg \<and> accountKeys msg = Some ks \<and>
           preBalances m = Some pre \<and> postBalances m = Some post \<and>
           findIndex (\<lambda>k. k = Some (KString cexAddress)) (map pubkeyOf ks) = Some i \<and>
           at0 post i < at0 pre i))
   \<and> (transaction tx = Some t \<and> message t = Some msg \<and> accountKeys msg = Some ks \<and>
        (\<forall>k \<in> set ks. pubkeyOf k \<noteq> Some (KString cexAddress))
        \<longrightarrow> parseOutgoing tx cexAddress = Inr None)
   \<and> (transaction tx = Some t \<and> message t = Some msg \<and> accountKeys msg = Some ks \<and>
        meta tx = Some m \<and> preBalances m = Some pre \<and> postBalances m = Some post \<and>
        findIndex (\<lambda>k. k = Some (KString cexAddress)) (map pubkeyOf ks) = Some i \<and>
        at0 pre i \<le> at0 post i
        \<longrightarrow> parseOutgoing tx cexAddress = Inr None)"
proof (intro conjI impI)
  assume "parseBlockTransactions tx cexAddress = Inr evs"
  then show "length evs \<le> 1"
    by (auto simp: parseBlockTransactions_def Let_def
        split: option.splits if_splits prod.splits)
next
  assume a: "parseBlockTransactions tx cexAddress = Inr (ev # evs')"
  have "ev \<in> set (ev # evs')" by simp
  from pbt_cases [OF a this]
  show "\<exists>m t msg pre post i. meta tx = Some m \<and> transaction tx = Some t \<and> message t = Some msg \<and>
           preBalances m = Some pre \<and> postBalances m = Some post \<and>
           findIndex (\<lambda>k. keyAddr k = Some cexAddress) (staticOrAccountKeys msg) = Some i \<and>
           at0 post i < at0 pre i"
    by metis
next
  assume a: "transaction tx = Some t \<and> message t = Some msg \<and>
        (\<forall>k \<in> set (staticOrAccountKeys msg). keyAddr k \<noteq> Some cexAddress)"
  then have "findIndex (\<lambda>k. keyAddr k = Some cexAddress) (staticOrAccountKeys msg) = None"
    by (simp add: findIndex_None)
  with a show "parseBlockTransactions tx cexAddress = Inr []"
    by (simp add: parseBlockTransactions_def split: option.splits)
next
  assume "transaction tx = Some t \<and> message t = Some msg \<and> meta tx = Some m \<and>
        preBalances m = Some pre \<and> postBalances m = Some post \<and>
        findIndex (\<lambda>k. keyAddr k = Some cexAddress) (staticOrAccountKeys msg) = Some i \<and>
        at0 pre i \<le> at0 post i"
  then show "parseBlockTransactions tx cexAddress = Inr []"
    by (simp add: parseBlockTransactions_def jsSub_pos)
next
  assume a: "parseOutgoing tx cexAddress = Inr (Some og)"
  from po_cases [OF a]
  show "\<exists>m t msg ks pre post i. meta tx = Some m \<and> transaction tx = Some t \<and>
           message t = Some msg \<and> accountKeys msg = Some ks \<and>
           preBalances m = Some pre \<and> postBalances m = Some post \<and>
           findIndex (\<lambda>k. k = Some (KString cexAddress)) (map pubkeyOf ks) = Some i \<and>
           at0 post i < at0 pre i"
    by metis
next
  assume a: "transaction tx = Some t \<and> message t = Some msg \<and> accountKeys msg = Some ks \<and>
        (\<forall>k \<in> set ks. pubkeyOf k \<noteq> Some (KString cexAddress))"
  then have "findIndex (\<lambda>k. k = Some (KString cexAddress)) (map pubkeyOf ks) = None"
    by (simp add: findIndex_None)
  with a show "parseOutgoing tx cexAddress = Inr None"
    by (simp add: parseOutgoing_def split: option.splits)
next
  assume "transaction tx = Some t \<and> message t = Some msg \<and> accountKeys msg = Some ks \<and>
        meta tx = Some m \<and> preBalances m = Some pre \<and> postBalances m = Some post \<and>
        findIndex (\<lambda>k. k = Some (KString cexAddress)) (map pubkeyOf ks) = Some i \<and>
        at0 pre i \<le> at0 post i"
  then show "parseOutgoing tx cexAddress = Inr None"
    by (simp add: parseOutgoing_def jsSub_pos)
qed

theorem extractor_zero_or_one_witness:
  "parseBlockTransactions
     (legacyTx ''sig'' [KString ''ACC1'', KString ''ACC2''] [20000000000, 0]
        [10000000000, 10000000000]) ''ACC1''
     = Inr [\<lparr>amount = 10, receiver = ''ACC2''\<rparr>]
   \<and> parseBlockTransactions
     (legacyTx ''sig'' [KString ''ACC1'', KString ''ACC2''] [20000000000, 0]
        [10000000000, 10000000000]) ''ACC9'' = Inr []
   \<and> parseBlockTransactions
     (legacyTx ''sig'' [KString ''ACC1'', KString ''ACC2''] [20000000000, 0]
        [10000000000, 10000000000]) ''ACC2'' = Inr []
   \<and> parseOutgoing
     (legacyTx ''sig'' [KString ''ACC1'', KString ''ACC2''] [20000000000, 0]
        [10000000000, 10000000000]) ''ACC1''
     = Inr (Some \<lparr>amount = 10, receiver = Some (KString ''ACC2'')\<rparr>)
   \<and> parseOutgoing
     (legacyTx ''sig'' [KString ''ACC1'', KString ''ACC2''] [20000000000, 0]
        [10000000000, 10000000000]) ''ACC9'' = Inr None
   \<and> parseOutgoing
     (legacyTx ''sig'' [KString ''ACC1'', KString ''ACC2''] [20000000000, 0]
        [10000000000, 10000000000]) ''ACC2'' = Inr None"
proof -
  let ?keys = "[KString ''ACC1'', KString ''ACC2'']"
  let ?pre = "[20000000000, 0 :: int]"
  let ?post = "[10000000000, 10000000000 :: int]"
  let ?tx = "legacyTx ''sig'' ?keys ?pre ?post"
  let ?msg = "\<lparr>staticAccountKeys = None, accountKeys = Some ?keys\<rparr>"
  let ?t = "\<lparr>signatures = Some [''sig''], message = Some ?msg\<rparr>"
  let ?m = "\<lparr>preBalances = Some ?pre, postBalances = Some ?post\<rparr>"
  have ev: "parseBlockTransactions ?tx ''ACC1'' = Inr [\<lparr>amount = 10, receiver = ''ACC2''\<rparr>]"
    by (simp add: parseBlockTransactions_def tx_eval)
  have og: "parseOutgoing ?tx ''ACC1'' =
              Inr (Some \<lparr>amount = 10, receiver = Some (KString ''ACC2'')\<rparr>)"
    by (simp add: parseOutgoing_def tx_eval)
  note absent = extractor_zero_or_one [where tx = ?tx and cexAddress = "''ACC9''" and t = ?t
      and msg = ?msg and ks = ?keys]
  note gains = extractor_zero_or_one [where tx = ?tx and cexAddress = "''ACC2''" and t = ?t
      and msg = ?msg and ks = ?keys and m = ?m and pre = ?pre and post = ?post and i = 1]
  note one = extractor_zero_or_one [where tx = ?tx and cexAddress = "''ACC1''"
      and evs = "[\<lparr>amount = 10, receiver = ''ACC2''\<rparr>]"]
  have a: "parseBlockTransactions ?tx ''ACC9'' = Inr []" "parseOutgoing ?tx ''ACC9'' = Inr None"
    using absent by (simp_all add: legacyTx_def staticOrAccountKeys_def)
  have b: "parseBlockTransactions ?tx ''ACC2'' = Inr []" "parseOutgoing ?tx ''ACC2'' = Inr None"
    using gains by (simp_all add: legacyTx_def staticOrAccountKeys_def at0_def)
  have c: "length [\<lparr>amount = 10 :: real, receiver = ''ACC2''\<rparr>] \<le> 1"
    using one ev by simp
  show ?thesis using ev og a b c by simp
qed





section \<open>Properties of the block monitor\<close>

lemma processTransactions_append:
  "processTransactions sigOf configs txs out = (None, outa) \<Longrightarrow>
   processTransactions sigOf configs (txs @ rest) out =
     processTransactions sigOf configs rest outa"
proof (induction txs arbitrary: out)
  case Nil
  then show ?case by simp
next
  case (Cons tx txs)
  then show ?case
    by (cases "processTransaction sigOf configs tx out") (auto split: option.splits)
qed

lemma transfer_alone:
  "processTransactions signature0 [okx] [transferTx] [] =
     (None, [\<lparr>alertLabel = ''OKX'', alertAmount = 39 / 2, alertReceiver = ''ACC2'',
              alertSignature = ''sig''\<rparr>])"
  by (simp add: processTransaction_def signature0_def parseBlockTransactions_def tx_eval
      transferTx_def okx_def alertsFor_def range_eval)

lemma malformed_throws: "processTransaction signature0 configs malformedTx out = (Some TypeError, out)"
  by (simp add: processTransaction_def signature0_def malformedTx_def)

text \<open>
  Every round of the batch loop ends when the concurrency is positive, and a gap no
  longer than the concurrency is one batch.
\<close>

lemma drainGap_total:
  assumes "0 < c"
  shows "\<exists>st'. drainGap configs getBlock c slots i st = Some st'"
proof (induction "length slots - i" arbitrary: i st rule: less_induct)
  case less
  show ?case
  proof (cases "i < length slots")
    case True
    then have "length slots - (i + c) < length slots - i" using assms by arith
    from less [OF this] show ?thesis
      using True by (subst drainGap.simps) simp
  next
    case False
    then show ?thesis by (subst drainGap.simps) simp
  qed
qed

lemma drainGap_single_batch:
  assumes "0 < c" "slots \<noteq> []" "length slots \<le> c"
  shows "drainGap configs getBlock c slots 0 st = Some (batchStep configs getBlock slots st)"
proof -
  have "drainGap configs getBlock c slots 0 st =
          drainGap configs getBlock c slots c (batchStep configs getBlock slots st)"
    using assms by (subst drainGap.simps) simp
  also have "\<dots> = Some (batchStep configs getBlock slots st)"
    using assms by (subst drainGap.simps) simp
  finally show ?thesis .
qed

text \<open>
  Inside one batch the drain stops at a failed height: with blocks at \<open>w + 1\<close> and
  \<open>w + 2\<close> and an error that is not a skipped slot at \<open>w + 3\<close>, \<open>processedUpTo\<close> ends at
  \<open>w + 2\<close> whatever follows in the batch.
\<close>

lemma drainBatch_stops_at_failure:
  assumes "getBlock (w + 1) = Inr (Some ba)" "transactions ba = Some txsa"
    "processTransactions signature0 configs txsa out = (None, outa)"
    "getBlock (w + 2) = Inr (Some bb)" "transactions bb = Some txsb"
    "processTransactions signature0 configs txsb outa = (None, outb)"
    "getBlock (w + 3) = Inl msg" "\<not> str_includes msg ''skipped''"
    "\<not> str_includes msg ''missing in long-term storage''"
  shows "drainBatch configs getBlock ((w + 1) # (w + 2) # (w + 3) # rest) (w, out) = (w + 2, outb)"
  using assms by simp

text \<open>
  Claim C1, at an input where the code breaks it. The concurrency is the default 16, the
  watermark is 100 and the current height 117; slot 103 fails with a rate-limit error and
  every other slot has a block. The first batch, slots 101 to 116, stops at 103 and leaves
  the watermark at 102; the loop then goes on to the second batch, slot 117, which starts
  from \<open>processedUpTo = 102\<close> and moves the watermark to 117. The heights 103 to 116 are
  never fetched again. The same happens with a concurrency of 3 and the heights 101 to 104.
\<close>

theorem drain_passes_failed_height:
  "pollOnce [] failingAt103 16 117 \<lparr>lastSlot = 100, sent = [], saved = []\<rparr> =
     Some \<lparr>lastSlot = 117, sent = [], saved = []\<rparr>
   \<and> pollOnce [] failingAt103 3 104 \<lparr>lastSlot = 100, sent = [], saved = []\<rparr> =
     Some \<lparr>lastSlot = 104, sent = [], saved = []\<rparr>
   \<and> pollOnce [] failingAt103 16 116 \<lparr>lastSlot = 100, sent = [], saved = []\<rparr> =
     Some \<lparr>lastSlot = 102, sent = [], saved = []\<rparr>"
  by code_simp

text \<open>
  Claim C2, as the code has it. The file read at startup is not used: when the first
  \<open>getSlot\<close> succeeds with height \<open>h\<close> the watermark is \<open>h\<close>, whatever was persisted, and
  the first gap polled at a height \<open>slot > h\<close> is \<open>h + 1, ..., slot\<close>; at a height up to
  \<open>h\<close> nothing is processed.
\<close>

theorem startup_seed:
  "startup lastSlots (Some h) = \<lparr>lastSlot = h, sent = [], saved = []\<rparr>
   \<and> (h < slot \<longrightarrow>
        pollOnce configs getBlock c slot (startup lastSlots (Some h)) =
        drainGap configs getBlock c [Suc h..<Suc slot] 0 \<lparr>lastSlot = h, sent = [], saved = []\<rparr>)
   \<and> (slot \<le> h \<longrightarrow>
        pollOnce configs getBlock c slot (startup lastSlots (Some h)) =
        Some \<lparr>lastSlot = h, sent = [], saved = []\<rparr>)"
  by (simp add: startup_def pollOnce_def)

theorem startup_seed_witness:
  "(100 :: nat) < 102
   \<and> pollOnce [] emptyBlocks 16 102 (startup persisted50 (Some 100)) =
       Some \<lparr>lastSlot = 102, sent = [], saved = []\<rparr>
   \<and> pollOnce [] emptyBlocks 16 100 (startup persisted50 (Some 100)) =
       Some \<lparr>lastSlot = 100, sent = [], saved = []\<rparr>"
proof -
  have e: "drainGap [] emptyBlocks 16 [Suc 100..<Suc 102] 0 \<lparr>lastSlot = 100, sent = [], saved = []\<rparr>
             = Some \<lparr>lastSlot = 102, sent = [], saved = []\<rparr>"
    by code_simp
  have lt: "(100 :: nat) < 102" and le: "(100 :: nat) \<le> 100" by simp_all
  have a: "pollOnce [] emptyBlocks 16 102 (startup persisted50 (Some 100)) =
             Some \<lparr>lastSlot = 102, sent = [], saved = []\<rparr>"
    unfolding startup_seed [of persisted50 100 102 "[]" emptyBlocks 16,
        THEN conjunct2, THEN conjunct1, THEN mp, OF lt]
    by (rule e)
  have b: "pollOnce [] emptyBlocks 16 100 (startup persisted50 (Some 100)) =
             Some \<lparr>lastSlot = 100, sent = [], saved = []\<rparr>"
    by (rule startup_seed [of persisted50 100 100 "[]" emptyBlocks 16,
        THEN conjunct2, THEN conjunct2, THEN mp, OF le])
  show ?thesis using lt a b by simp
qed

text \<open>
  Against claim C2 as it is written: with slot 50 persisted and the provider at height
  100 the watermark starts at 100, so polling resumes from 101 and not from 51; with
  nothing persisted it starts at 100 and not at 99.
\<close>

theorem startup_seed_counterexample:
  "lastSlot (startup persisted50 (Some 100)) = 100
   \<and> persisted50 ''lastSlot'' = Some 50
   \<and> lastSlot (startup nothingPersisted (Some 100)) = 100
   \<and> nothingPersisted ''lastSlot'' = None"
  by (simp add: startup_def persisted50_def nothingPersisted_def)

lemma processConfigs_error_indep:
  "fst (processConfigs tx sg cfgs out) = fst (processConfigs tx sg cfgs out')"
proof (induction cfgs arbitrary: out out')
  case Nil
  show ?case by simp
next
  case (Cons cfg cfgs)
  show ?case
    using Cons.IH by (cases "parseBlockTransactions tx (address cfg)") auto
qed

lemma processTransaction_error_indep:
  "fst (processTransaction sigOf configs tx out) = fst (processTransaction sigOf configs tx out')"
  using processConfigs_error_indep
  by (auto simp: processTransaction_def split: sum.splits option.splits)

lemma processTransactions_error_indep:
  "fst (processTransactions sigOf configs txs out) = fst (processTransactions sigOf configs txs out')"
proof (induction txs arbitrary: out out')
  case Nil
  show ?case by simp
next
  case (Cons tx txs)
  obtain ea oa where a: "processTransaction sigOf configs tx out = (ea, oa)" by fastforce
  obtain eb ob where b: "processTransaction sigOf configs tx out' = (eb, ob)" by fastforce
  have "ea = eb" using processTransaction_error_indep [of sigOf configs tx out out'] a b by simp
  then show ?case using a b Cons.IH [of oa ob] by (cases ea) auto
qed

lemma drainBatch_below_error:
  assumes "getBlock s = Inr (Some blockData)" "transactions blockData = Some txs"
    "fst (processTransactions signature0 configs txs outz) = Some e"
  shows "sorted_wrt (<) slots \<Longrightarrow> \<forall>x \<in> set slots. p < x \<Longrightarrow> s \<in> set slots \<Longrightarrow>
         fst (drainBatch configs getBlock slots (p, out)) < s"
proof (induction slots arbitrary: p out)
  case Nil
  then show ?case by simp
next
  case (Cons x xs)
  have px: "p < x" using Cons.prems(2) by simp
  show ?case
  proof (cases "x = s")
    case True
    obtain ea oa where a: "processTransactions signature0 configs txs out = (ea, oa)" by fastforce
    have "ea = Some e"
      using processTransactions_error_indep [of signature0 configs txs out outz] a assms(3) by simp
    then show ?thesis using True assms a px by simp
  next
    case False
    then have sx: "s \<in> set xs" and xs: "x < s" using Cons.prems by auto
    have ps: "p < s" using px xs by simp
    have srt: "sorted_wrt (<) xs" and gt: "\<forall>y \<in> set xs. x < y" using Cons.prems(1) by auto
    have ih: "fst (drainBatch configs getBlock xs (x, o')) < s" for o'
      using Cons.IH [OF srt gt sx] .
    show ?thesis
      using ih ps
      by (auto split: sum.splits option.splits prod.splits)
  qed
qed

text \<open>
  Claim C3, as the code has it. The \<open>try\<close> of the polling monitor is around the whole
  block. When the transactions before \<open>tx\<close> pass and \<open>tx\<close> throws, the processing of the
  block ends with that error: the alerts sent so far stand, the transactions after \<open>tx\<close>
  are not looked at, and the drain of the batch stops with \<open>processedUpTo\<close> where it was.
  When the gap of the round is one batch, the round ends with the watermark below the
  height of that block. A throw is a missing body or signature list, or an extraction that
  throws for a watched account, after which the accounts that follow are not looked at
  either.
\<close>

theorem tx_error_aborts_block:
  assumes "processTransactions sigOf configs before out = (None, outa)"
    and "processTransaction sigOf configs tx outa = (Some e, outb)"
  shows "processTransactions sigOf configs (before @ tx # rest) out = (Some e, outb)
       \<and> (sigOf = signature0 \<and> getBlock s = Inr (Some blockData) \<and>
          transactions blockData = Some (before @ tx # rest)
          \<longrightarrow> drainBatch configs getBlock (s # ss) (p, out) = (p, outb))
       \<and> (sigOf tx = Inl e \<longrightarrow> outb = outa)
       \<and> (parseBlockTransactions tx (address cfg) = Inl e \<longrightarrow>
            processConfigs tx sg (cfg # cfgs) acc = (Some e, acc))
       \<and> (sigOf = signature0 \<and> getBlock s = Inr (Some blockData) \<and>
          transactions blockData = Some (before @ tx # rest) \<and>
          0 < c \<and> slot - lastSlot st \<le> c \<and> s \<in> set [Suc (lastSlot st)..<Suc slot]
          \<longrightarrow> pollOnce configs getBlock c slot st =
                Some (batchStep configs getBlock [Suc (lastSlot st)..<Suc slot] st) \<and>
              lastSlot (batchStep configs getBlock [Suc (lastSlot st)..<Suc slot] st) < s)"
proof -
  have a: "processTransactions sigOf configs (before @ tx # rest) out = (Some e, outb)"
    using processTransactions_append [OF assms(1), of "tx # rest"] assms(2) by simp
  have b: "outb = outa" if "sigOf tx = Inl e"
    using that assms(2) by (simp add: processTransaction_def)
  have c: "pollOnce configs getBlock c slot st =
                Some (batchStep configs getBlock [Suc (lastSlot st)..<Suc slot] st) \<and>
              lastSlot (batchStep configs getBlock [Suc (lastSlot st)..<Suc slot] st) < s"
    if h: "sigOf = signature0 \<and> getBlock s = Inr (Some blockData) \<and>
          transactions blockData = Some (before @ tx # rest) \<and>
          0 < c \<and> slot - lastSlot st \<le> c \<and> s \<in> set [Suc (lastSlot st)..<Suc slot]"
  proof -
    let ?slots = "[Suc (lastSlot st)..<Suc slot]"
    have lt: "lastSlot st < s" and gt: "lastSlot st < slot" using h by auto
    have ne: "?slots \<noteq> []" and len: "length ?slots \<le> c" using h gt by auto
    have err: "fst (processTransactions signature0 configs (before @ tx # rest) out) = Some e"
      using a h by simp
    have srt: "sorted_wrt (<) ?slots" by (rule sorted_wrt_upt)
    have above: "\<forall>x \<in> set ?slots. lastSlot st < x" by (simp del: upt_Suc)
    have mem: "s \<in> set ?slots" using h by blast
    have blk: "getBlock s = Inr (Some blockData)"
      "transactions blockData = Some (before @ tx # rest)"
      using h by blast+
    have low: "fst (drainBatch configs getBlock ?slots (lastSlot st, sent st)) < s"
      by (rule drainBatch_below_error
          [where getBlock = getBlock and s = s and blockData = blockData,
            OF blk err srt above mem])
    have "pollOnce configs getBlock c slot st = Some (batchStep configs getBlock ?slots st)"
      using h gt drainGap_single_batch [OF _ ne len] by (simp add: pollOnce_def)
    moreover have "lastSlot (batchStep configs getBlock ?slots st) < s"
    proof -
      obtain pu ou where d: "drainBatch configs getBlock ?slots (lastSlot st, sent st) = (pu, ou)"
        by fastforce
      have pl: "pu < s" using low unfolding d by simp
      have "batchStep configs getBlock ?slots st =
              st\<lparr>lastSlot := (if pu > lastSlot st then pu else lastSlot st), sent := ou\<rparr>"
        unfolding batchStep_def d by simp
      then show ?thesis using pl lt by simp
    qed
    ultimately show ?thesis by simp
  qed
  show ?thesis using a b c by auto
qed

theorem tx_error_aborts_block_witness:
  "processTransactions signature0 [okx] [transferTx, malformedTx, transferTx] [] =
     (Some TypeError,
      [\<lparr>alertLabel = ''OKX'', alertAmount = 39 / 2, alertReceiver = ''ACC2'',
        alertSignature = ''sig''\<rparr>])
   \<and> drainBatch [okx] transferMalformedTransfer [101, 102] (100, []) =
     (100, [\<lparr>alertLabel = ''OKX'', alertAmount = 39 / 2, alertReceiver = ''ACC2'',
             alertSignature = ''sig''\<rparr>])
   \<and> pollOnce [okx] transferMalformedTransfer 16 102 \<lparr>lastSlot = 100, sent = [], saved = []\<rparr> =
     Some \<lparr>lastSlot = 100,
           sent = [\<lparr>alertLabel = ''OKX'', alertAmount = 39 / 2, alertReceiver = ''ACC2'',
                    alertSignature = ''sig''\<rparr>],
           saved = []\<rparr>"
proof -
  let ?al = "[\<lparr>alertLabel = ''OKX'', alertAmount = 39 / 2, alertReceiver = ''ACC2'',
               alertSignature = ''sig''\<rparr>]"
  let ?st = "\<lparr>lastSlot = 100, sent = [], saved = []\<rparr>"
  note t = tx_error_aborts_block [OF transfer_alone malformed_throws,
      where rest = "[transferTx]" and getBlock = transferMalformedTransfer and s = 101
        and blockData = "\<lparr>transactions = Some [transferTx, malformedTx, transferTx]\<rparr>"
        and ss = "[102]" and p = 100 and c = 16 and slot = 102 and st = ?st]
  have a: "processTransactions signature0 [okx] [transferTx, malformedTx, transferTx] [] =
             (Some TypeError, ?al)"
    using t [THEN conjunct1] by simp
  have b: "drainBatch [okx] transferMalformedTransfer [101, 102] (100, []) = (100, ?al)"
    using t [THEN conjunct2, THEN conjunct1] by (simp add: transferMalformedTransfer_def)
  have gap: "[Suc 100..<Suc 102] = [101, 102]" by (simp add: upt_rec)
  have c: "pollOnce [okx] transferMalformedTransfer 16 102 ?st =
             Some \<lparr>lastSlot = 100, sent = ?al, saved = []\<rparr>"
    using t [THEN conjunct2, THEN conjunct2, THEN conjunct2, THEN conjunct2] b gap
    by (simp add: transferMalformedTransfer_def batchStep_def)
  show ?thesis using a b c by simp
qed

text \<open>
  Against claim C3 as it is written: in a block made of the malformed transaction
  followed by the transfer of 19.5 SOL from the watched wallet, the transfer alone raises
  an alert, but behind the malformed transaction it is never processed, and the drain of
  the batch leaves the watermark at 100.
\<close>

theorem tx_error_counterexample:
  "processTransactions signature0 [okx] [transferTx] [] =
     (None, [\<lparr>alertLabel = ''OKX'', alertAmount = 39 / 2, alertReceiver = ''ACC2'',
              alertSignature = ''sig''\<rparr>])
   \<and> processTransactions signature0 [okx] [malformedTx, transferTx] [] = (Some TypeError, [])
   \<and> drainBatch [okx] malformedThenTransfer [101] (100, []) = (100, [])"
  using transfer_alone
  by (simp add: processTransaction_def signature0_def malformedTx_def malformedThenTransfer_def)

text \<open>
  Across batches the loop over the batches goes on after the \<open>break\<close>, as it does after a
  failed fetch: with one slot per batch, the block of slot 101 throws, the block of slot
  102 is processed by the next batch, and the round ends with the watermark at 102, past
  the block that was given up.
\<close>

lemma tx_error_next_batch_passes:
  "pollOnce [okx] malformedAt101 1 102 \<lparr>lastSlot = 100, sent = [], saved = []\<rparr> =
     Some \<lparr>lastSlot = 102, sent = [], saved = []\<rparr>
   \<and> pollOnce [okx] malformedAt101 16 102 \<lparr>lastSlot = 100, sent = [], saved = []\<rparr> =
     Some \<lparr>lastSlot = 100, sent = [], saved = []\<rparr>"
  by code_simp

lemma extend_saved:
  assumes "saved sta = saved st @ [s]" "lastSlot sta = s" "lastSlot st < s"
    and "\<exists>ss. saved st' = saved sta @ ss \<and> lastSlot st' = last (lastSlot sta # ss) \<and>
            sorted_wrt (<) (lastSlot sta # ss)"
  shows "\<exists>ss. saved st' = saved st @ ss \<and> lastSlot st' = last (lastSlot st # ss) \<and>
            sorted_wrt (<) (lastSlot st # ss)"
proof -
  from assms(4) obtain ss where ss: "saved st' = saved sta @ ss"
      "lastSlot st' = last (lastSlot sta # ss)" "sorted_wrt (<) (lastSlot sta # ss)"
    by blast
  have "saved st' = saved st @ (s # ss)" using ss(1) assms(1) by simp
  moreover have "lastSlot st' = last (lastSlot st # s # ss)" using ss(2) assms(2) by simp
  moreover have "sorted_wrt (<) (lastSlot st # s # ss)"
    using ss(3) assms(2,3) by auto
  ultimately show ?thesis by blast
qed

lemma processQueue_saved:
  "processQueue configs getBlock saveOk q st = (q', st') \<Longrightarrow>
   \<exists>ss. saved st' = saved st @ ss \<and> lastSlot st' = last (lastSlot st # ss) \<and>
        sorted_wrt (<) (lastSlot st # ss)"
proof (induction q arbitrary: st q' st')
  case Nil
  then show ?case by simp
next
  case (Cons s q)
  show ?case
  proof (cases "s \<le> lastSlot st")
    case True
    with Cons.prems have "processQueue configs getBlock saveOk q st = (q', st')" by simp
    from Cons.IH [OF this] show ?thesis .
  next
    case False
    then have lt: "lastSlot st < s" by simp
    show ?thesis
    proof (cases "getBlock s")
      case (Inl msg)
      with Cons.prems False have "st' = st" by simp
      then show ?thesis by (intro exI [of _ "[]"]) simp
    next
      case (Inr bd)
      show ?thesis
      proof (cases "case bd of None \<Rightarrow> None | Some b \<Rightarrow> transactions b")
        case None
        let ?sta = "st\<lparr>lastSlot := s, saved := saved st @ [s]\<rparr>"
        show ?thesis
        proof (cases "saveOk s")
          case True
          with Cons.prems False Inr None
          have "processQueue configs getBlock saveOk q ?sta = (q', st')" by simp
          from extend_saved [OF _ _ lt Cons.IH [OF this]] show ?thesis by simp
        next
          case no: False
          with Cons.prems False Inr None have "st' = ?sta" by simp
          then show ?thesis using lt by (intro exI [of _ "[s]"]) simp
        qed
      next
        case (Some txs)
        note txs = this
        obtain eo out where pt:
          "processTransactions signature0_optional configs txs (sent st) = (eo, out)"
          by fastforce
        show ?thesis
        proof (cases eo)
          case (Some e)
          with Cons.prems False Inr txs pt have "st' = st\<lparr>sent := out\<rparr>" by simp
          then show ?thesis by (intro exI [of _ "[]"]) simp
        next
          case None
          let ?sta = "st\<lparr>lastSlot := s, sent := out, saved := saved st @ [s]\<rparr>"
          show ?thesis
          proof (cases "saveOk s")
            case True
            with Cons.prems False Inr txs pt None
            have "processQueue configs getBlock saveOk q ?sta = (q', st')" by simp
            from extend_saved [OF _ _ lt Cons.IH [OF this]] show ?thesis by simp
          next
            case no: False
            with Cons.prems False Inr txs pt None have "st' = ?sta" by simp
            then show ?thesis using lt by (intro exI [of _ "[s]"]) simp
          qed
        qed
      qed
    qed
  qed
qed

text \<open>
  The listener, for comparison. In \<open>processQueue\<close> every advance of the watermark is
  followed by a call of \<open>saveLastSlot\<close> with the new value: the calls made during a run
  are values the watermark took, strictly increasing, and the watermark at the end is the
  argument of the last call. When the save fails, the watermark keeps the new value: the
  slot goes back to the head of the queue and the loop is left with \<open>lastSlot = s\<close>, for
  a slot without block data and for a processed block alike.
\<close>

lemma processQueue_saves_each_advance:
  "(processQueue configs getBlock saveOk q st = (q', st') \<longrightarrow>
      (\<exists>ss. saved st' = saved st @ ss \<and> lastSlot st' = last (lastSlot st # ss) \<and>
            sorted_wrt (<) (lastSlot st # ss)))
   \<and> (lastSlot st < s \<and> getBlock s = Inr None \<and> \<not> saveOk s \<longrightarrow>
        processQueue configs getBlock saveOk (s # q) st =
          (s # q, st\<lparr>lastSlot := s, saved := saved st @ [s]\<rparr>))
   \<and> (lastSlot st < s \<and> getBlock s = Inr (Some b) \<and> transactions b = Some txs \<and>
      processTransactions signature0_optional configs txs (sent st) = (None, out) \<and>
      \<not> saveOk s \<longrightarrow>
        processQueue configs getBlock saveOk (s # q) st =
          (s # q, st\<lparr>lastSlot := s, sent := out, saved := saved st @ [s]\<rparr>))"
  using processQueue_saved [of configs getBlock saveOk q st q' st'] by auto

lemma batchStep_saved: "saved (batchStep configs getBlock batch st) = saved st"
  by (simp add: batchStep_def split: prod.splits)

lemma drainGap_saved:
  assumes "drainGap configs getBlock c slots i st = Some st'"
  shows "saved st' = saved st"
proof (rule drainGap.raw_induct
    [where P = "\<lambda>cf gb cc sl ii sa sb. saved sb = saved sa", OF _ assms])
  fix f cf gb cc sl ii sa sb
  assume ih: "\<And>cf gb cc sl ii sa sb. f cf gb cc sl ii sa = Some sb \<Longrightarrow> saved sb = saved sa"
    and step: "(if ii < length sl
                then f cf gb cc sl (ii + cc) (batchStep cf gb (take cc (drop ii sl)) sa)
                else Some sa) = Some sb"
  show "saved sb = saved sa"
  proof (cases "ii < length sl")
    case True
    with step have "f cf gb cc sl (ii + cc) (batchStep cf gb (take cc (drop ii sl)) sa) = Some sb"
      by simp
    from ih [OF this] show ?thesis by (simp add: batchStep_saved)
  next
    case False
    with step show ?thesis by simp
  qed
qed

text \<open>
  Claim C4, at an input where the code breaks it. The polling monitor fetches the block
  of slot 101 from the watermark 100 and advances the watermark to 101, and
  \<open>saveLastSlot\<close> is not called; no round of the polling monitor ever calls it, whatever
  the round advances.
\<close>

theorem polling_never_saves:
  "pollOnce [] emptyBlocks 16 101 \<lparr>lastSlot = 100, sent = [], saved = []\<rparr> =
     Some \<lparr>lastSlot = 101, sent = [], saved = []\<rparr>
   \<and> (pollOnce configs getBlock c slot st = Some st' \<longrightarrow> saved st' = saved st)"
proof
  show "pollOnce [] emptyBlocks 16 101 \<lparr>lastSlot = 100, sent = [], saved = []\<rparr> =
     Some \<lparr>lastSlot = 101, sent = [], saved = []\<rparr>"
    by code_simp
  show "pollOnce configs getBlock c slot st = Some st' \<longrightarrow> saved st' = saved st"
    using drainGap_saved by (auto simp: pollOnce_def split: if_splits)
qed

theorem polling_never_saves_witness:
  "pollOnce [] emptyBlocks 16 102 \<lparr>lastSlot = 100, sent = [], saved = []\<rparr> =
     Some \<lparr>lastSlot = 102, sent = [], saved = []\<rparr>
   \<and> saved \<lparr>lastSlot = 102, sent = [] :: Alert list, saved = []\<rparr> =
     saved \<lparr>lastSlot = 100, sent = [] :: Alert list, saved = []\<rparr>"
proof -
  have e: "pollOnce [] emptyBlocks 16 102 \<lparr>lastSlot = 100, sent = [], saved = []\<rparr> =
     Some \<lparr>lastSlot = 102, sent = [], saved = []\<rparr>"
    by code_simp
  from polling_never_saves [THEN conjunct2, THEN mp, OF e] e show ?thesis by simp
qed

end
